theory Spec2Isabelle
  imports Complex_Main "HOL-Library.Multiset"
begin

section \<open>Data model\<close>

text \<open>
  The match-3 engine of the repository lives in three JavaScript singletons:
  \<^verbatim>\<open>MatchDetector\<close> (js/match.js), \<^verbatim>\<open>Grid\<close> (js/grid.js) and \<^verbatim>\<open>Game\<close> (js/game.js).
  A tile is the object \<^verbatim>\<open>{type, special, isMemory, memoryId}\<close>. Its \<^verbatim>\<open>type\<close> is one of
  the five strings of \<^verbatim>\<open>Grid.tileTypes\<close>, or \<^verbatim>\<open>null\<close> (\<^verbatim>\<open>createSpecialCandy\<close> stores
  whatever \<^verbatim>\<open>candyType\<close> it is given); its \<^verbatim>\<open>special\<close> is \<^verbatim>\<open>null\<close> or one of
  \<^verbatim>\<open>'striped-h'\<close>, \<^verbatim>\<open>'striped-v'\<close>, \<^verbatim>\<open>'wrapped'\<close>. All five type strings are truthy, so
  the test \<^verbatim>\<open>!type\<close> of the source holds exactly when the type is \<^verbatim>\<open>null\<close>. The
  \<^verbatim>\<open>memoryId\<close> is a number, \<^verbatim>\<open>null\<close> or \<^verbatim>\<open>undefined\<close>.
\<close>

datatype kind = Heart | Diamond | Rose | Star | Ring

datatype special = StripedH | StripedV | Wrapped

datatype memid = MemNull | MemUndefined | MemId nat

record tile =
  type :: "kind option"
  special :: "special option"
  isMemory :: bool
  memoryId :: memid

text \<open>
  A grid slot holds a tile object, \<^verbatim>\<open>null\<close> (a cleared slot) or \<^verbatim>\<open>undefined\<close> (a slot
  that was never written, or a read beyond the end of a row). Both are falsy, but
  \<^verbatim>\<open>=== null\<close> tells them apart, so they are kept apart here.
\<close>

datatype cell = Null | Undefined | Tile tile

type_synonym grid = "cell list list"

text \<open>Positions are the objects \<^verbatim>\<open>{row, col}\<close>; row and column numbers are never negative
  where they are used as indices. The string \<^verbatim>\<open>`${row},${col}`\<close> that the source puts into
  its \<^verbatim>\<open>Set\<close>s is the pair of the two numbers.\<close>

record pos =
  row :: nat
  col :: nat

type_synonym key = "nat \<times> nat"

definition key :: "'a pos_scheme \<Rightarrow> key" where
  "key p = (row p, col p)"

text \<open>A spawn request \<^verbatim>\<open>{row, col, type, candyType}\<close> of \<^verbatim>\<open>findAllMatches\<close>.\<close>

record spawn = pos +
  stype :: special
  candyType :: "kind option"

datatype animation =
  ClearingRow | ClearingColumn | Exploding | ClearingCross | ClearingGiantCross | MegaExploding

text \<open>A position to clear, \<^verbatim>\<open>{row, col, animation}\<close>; the positions of a plain match carry
  no animation.\<close>

record cpos = pos +
  animation :: "animation option"

datatype combo = StripedStriped | StripedWrapped | WrappedWrapped | Unknown

record combination =
  pos1 :: pos
  pos2 :: pos
  type1 :: special
  type2 :: special
  combinationType :: combo

record matchResult =
  matches :: "pos list"
  specials :: "spawn list"

section \<open>Reading and writing the grid\<close>

text \<open>\<^verbatim>\<open>grid[r]?.[c]\<close>, and \<^verbatim>\<open>grid[r][c]\<close> wherever \<^verbatim>\<open>r < grid.length\<close> is known: a read
  beyond a row's end gives \<^verbatim>\<open>undefined\<close>.\<close>

definition gridAt :: "grid \<Rightarrow> nat \<Rightarrow> nat \<Rightarrow> cell" where
  "gridAt grid r c =
     (if r < length grid then (if c < length (grid ! r) then grid ! r ! c else Undefined)
      else Undefined)"

text \<open>\<^verbatim>\<open>grid[r][c]\<close> for a caller-supplied row: reading a property of
  \<^verbatim>\<open>undefined\<close> throws a TypeError. A call that throws has no result (\<open>None\<close>).\<close>

definition readCell :: "grid \<Rightarrow> nat \<Rightarrow> nat \<Rightarrow> cell option" where
  "readCell grid r c = (if r < length grid then Some (gridAt grid r c) else None)"

text \<open>\<^verbatim>\<open>xs[c] = v\<close>: a JavaScript array grows when written beyond its end, and the slots
  skipped read as \<^verbatim>\<open>undefined\<close>.\<close>

definition setCol :: "cell list \<Rightarrow> nat \<Rightarrow> cell \<Rightarrow> cell list" where
  "setCol xs c v =
     (if c < length xs then xs[c := v] else xs @ replicate (c - length xs) Undefined @ [v])"

definition setCell :: "grid \<Rightarrow> nat \<Rightarrow> nat \<Rightarrow> cell \<Rightarrow> grid option" where
  "setCell grid r c v =
     (if r < length grid then Some (grid[r := setCol (grid ! r) c v]) else None)"

definition truthy :: "cell \<Rightarrow> bool" where
  "truthy x = (case x of Tile t \<Rightarrow> True | _ \<Rightarrow> False)"

text \<open>A JavaScript \<^verbatim>\<open>Set\<close> of keys keeps insertion order and ignores a second add.\<close>

definition setAdd :: "key \<Rightarrow> key list \<Rightarrow> key list" where
  "setAdd k ks = (if k \<in> set ks then ks else ks @ [k])"

section \<open>MatchDetector (js/match.js)\<close>

definition getTileType :: "cell \<Rightarrow> kind option" where
  "getTileType x = (case x of Tile t \<Rightarrow> type t | _ \<Rightarrow> None)"

subsection \<open>findAllMatches\<close>

text \<open>The inner loop of the horizontal pass, \<^verbatim>\<open>for (col = 1; col <= size; col++)\<close>, with its
  two locals \<^verbatim>\<open>matchStart\<close> and \<^verbatim>\<open>matchLength\<close> and the two accumulators.\<close>

function hscan ::
  "grid \<Rightarrow> nat \<Rightarrow> nat \<Rightarrow> nat \<Rightarrow> nat \<Rightarrow> key list \<times> spawn list \<Rightarrow> key list \<times> spawn list" where
  "hscan grid r c matchStart matchLength (matchedPositions, specialCandies) =
     (if c \<le> length grid then
        (if c < length grid \<and> truthy (gridAt grid r c) \<and> truthy (gridAt grid r (c - 1)) \<and>
            getTileType (gridAt grid r c) = getTileType (gridAt grid r (c - 1))
         then hscan grid r (c + 1) matchStart (matchLength + 1) (matchedPositions, specialCandies)
         else hscan grid r (c + 1) c 1
           (if matchLength \<ge> 3 then
              (fold (\<lambda>i. setAdd (r, i)) [matchStart..<matchStart + matchLength] matchedPositions,
               if matchLength = 4 then
                 specialCandies @ [\<lparr>row = r, col = matchStart + matchLength div 2,
                   stype = StripedH, candyType = getTileType (gridAt grid r matchStart)\<rparr>]
               else if matchLength \<ge> 5 then
                 specialCandies @ [\<lparr>row = r, col = matchStart + matchLength div 2,
                   stype = Wrapped, candyType = getTileType (gridAt grid r matchStart)\<rparr>]
               else specialCandies)
            else (matchedPositions, specialCandies)))
      else (matchedPositions, specialCandies))"
  by pat_completeness auto
termination
  by (relation "measure (\<lambda>(grid, r, c, ms, ml, acc). length grid + 1 - c)") auto

text \<open>The inner loop of the vertical pass, \<^verbatim>\<open>for (row = 1; row <= size; row++)\<close>.\<close>

function vscan ::
  "grid \<Rightarrow> nat \<Rightarrow> nat \<Rightarrow> nat \<Rightarrow> nat \<Rightarrow> key list \<times> spawn list \<Rightarrow> key list \<times> spawn list" where
  "vscan grid c r matchStart matchLength (matchedPositions, specialCandies) =
     (if r \<le> length grid then
        (if r < length grid \<and> truthy (gridAt grid r c) \<and> truthy (gridAt grid (r - 1) c) \<and>
            getTileType (gridAt grid r c) = getTileType (gridAt grid (r - 1) c)
         then vscan grid c (r + 1) matchStart (matchLength + 1) (matchedPositions, specialCandies)
         else vscan grid c (r + 1) r 1
           (if matchLength \<ge> 3 then
              (fold (\<lambda>i. setAdd (i, c)) [matchStart..<matchStart + matchLength] matchedPositions,
               if matchLength = 4 then
                 specialCandies @ [\<lparr>row = matchStart + matchLength div 2, col = c,
                   stype = StripedV, candyType = getTileType (gridAt grid matchStart c)\<rparr>]
               else if matchLength \<ge> 5 then
                 specialCandies @ [\<lparr>row = matchStart + matchLength div 2, col = c,
                   stype = Wrapped, candyType = getTileType (gridAt grid matchStart c)\<rparr>]
               else specialCandies)
            else (matchedPositions, specialCandies)))
      else (matchedPositions, specialCandies))"
  by pat_completeness auto
termination
  by (relation "measure (\<lambda>(grid, c, r, ms, ml, acc). length grid + 1 - r)") auto

text \<open>The four counting loops shared by \<^verbatim>\<open>findLTShapes\<close> and \<^verbatim>\<open>hasMatchAt\<close>:
  \<^verbatim>\<open>for (c = col - 1; c >= 0 && getTileType(grid[row][c]) === type; c--) hCount++\<close>
  and its three siblings. \<open>countLeft grid r c t\<close> starts at column \<open>c - 1\<close>,
  \<open>countRight grid r c t\<close> at column \<open>c\<close>.\<close>

primrec countLeft :: "grid \<Rightarrow> nat \<Rightarrow> nat \<Rightarrow> kind \<Rightarrow> nat" where
  "countLeft grid r 0 t = 0"
| "countLeft grid r (Suc c) t =
     (if getTileType (gridAt grid r c) = Some t then Suc (countLeft grid r c t) else 0)"

function countRight :: "grid \<Rightarrow> nat \<Rightarrow> nat \<Rightarrow> kind \<Rightarrow> nat" where
  "countRight grid r c t =
     (if c < length grid \<and> getTileType (gridAt grid r c) = Some t
      then Suc (countRight grid r (c + 1) t) else 0)"
  by pat_completeness auto
termination
  by (relation "measure (\<lambda>(grid, r, c, t). length grid - c)") auto

primrec countUp :: "grid \<Rightarrow> nat \<Rightarrow> nat \<Rightarrow> kind \<Rightarrow> nat" where
  "countUp grid 0 c t = 0"
| "countUp grid (Suc r) c t =
     (if getTileType (gridAt grid r c) = Some t then Suc (countUp grid r c t) else 0)"

function countDown :: "grid \<Rightarrow> nat \<Rightarrow> nat \<Rightarrow> kind \<Rightarrow> nat" where
  "countDown grid r c t =
     (if r < length grid \<and> getTileType (gridAt grid r c) = Some t
      then Suc (countDown grid (r + 1) c t) else 0)"
  by pat_completeness auto
termination
  by (relation "measure (\<lambda>(grid, r, c, t). length grid - r)") auto

text \<open>One iteration of \<^verbatim>\<open>for (const pos of matchedPositions)\<close> in \<^verbatim>\<open>findLTShapes\<close>, on the
  pair of \<^verbatim>\<open>specials\<close> and \<^verbatim>\<open>checked\<close>.\<close>

definition ltStep :: "grid \<Rightarrow> key \<Rightarrow> spawn list \<times> key list \<Rightarrow> spawn list \<times> key list" where
  "ltStep grid p acc =
     (case p of (r, c) \<Rightarrow> (case acc of (found, checked) \<Rightarrow>
        if p \<in> set checked then (found, checked)
        else (case getTileType (gridAt grid r c) of
            None \<Rightarrow> (found, checked)
          | Some t \<Rightarrow>
              (let hCount = 1 + countLeft grid r c t + countRight grid r (c + 1) t;
                   vCount = 1 + countUp grid r c t + countDown grid (r + 1) c t
               in if hCount \<ge> 3 \<and> vCount \<ge> 3
                  then (found @ [\<lparr>row = r, col = c, stype = Wrapped, candyType = Some t\<rparr>],
                        setAdd p checked)
                  else (found, checked)))))"

definition findLTShapes :: "grid \<Rightarrow> key list \<Rightarrow> spawn list" where
  "findLTShapes grid matchedPositions = fst (fold (ltStep grid) matchedPositions ([], []))"

text \<open>The state of \<^verbatim>\<open>matchedPositions\<close> and \<^verbatim>\<open>specialCandies\<close> after the horizontal pass,
  and after both passes.\<close>

definition horizontalPass :: "grid \<Rightarrow> key list \<times> spawn list" where
  "horizontalPass grid = fold (\<lambda>r. hscan grid r 1 0 1) [0..<length grid] ([], [])"

definition verticalPass :: "grid \<Rightarrow> key list \<times> spawn list \<Rightarrow> key list \<times> spawn list" where
  "verticalPass grid acc = fold (\<lambda>c. vscan grid c 1 0 1) [0..<length grid] acc"

definition findAllMatches :: "grid \<Rightarrow> matchResult" where
  "findAllMatches grid =
     (case verticalPass grid (horizontalPass grid) of (matchedPositions, specialCandies) \<Rightarrow>
        \<lparr>matches = map (\<lambda>(r, c). \<lparr>row = r, col = c\<rparr>) matchedPositions,
         specials = specialCandies @ findLTShapes grid matchedPositions\<rparr>)"

subsection \<open>hasMatchAt, special combinations, wouldMatch, findPossibleMatch\<close>

definition hasMatchAt :: "grid \<Rightarrow> pos \<Rightarrow> bool" where
  "hasMatchAt grid p =
     (case getTileType (gridAt grid (row p) (col p)) of
        None \<Rightarrow> False
      | Some t \<Rightarrow>
          if 1 + countLeft grid (row p) (col p) t + countRight grid (row p) (col p + 1) t \<ge> 3
          then True
          else if 1 + countUp grid (row p) (col p) t + countDown grid (row p + 1) (col p) t \<ge> 3
          then True
          else False)"

definition areAdjacent :: "pos \<Rightarrow> pos \<Rightarrow> bool" where
  "areAdjacent p q =
     (let rowDiff = \<bar>int (row p) - int (row q)\<bar>; colDiff = \<bar>int (col p) - int (col q)\<bar>
      in (rowDiff = 1 \<and> colDiff = 0) \<or> (rowDiff = 0 \<and> colDiff = 1))"

definition isSpecialCandy :: "cell \<Rightarrow> special option" where
  "isSpecialCandy x = (case x of Tile t \<Rightarrow> special t | _ \<Rightarrow> None)"

definition isStriped :: "special \<Rightarrow> bool" where
  "isStriped t = (t = StripedH \<or> t = StripedV)"

definition isWrapped :: "special \<Rightarrow> bool" where
  "isWrapped t = (t = Wrapped)"

definition getCombinationType :: "special \<Rightarrow> special \<Rightarrow> combo" where
  "getCombinationType t1 t2 =
     (if isStriped t1 \<and> isStriped t2 then StripedStriped
      else if (isStriped t1 \<and> isWrapped t2) \<or> (isWrapped t1 \<and> isStriped t2) then StripedWrapped
      else if isWrapped t1 \<and> isWrapped t2 then WrappedWrapped
      else Unknown)"

definition isSpecialCombination :: "grid \<Rightarrow> pos \<Rightarrow> pos \<Rightarrow> combination option" where
  "isSpecialCombination grid p q =
     (case isSpecialCandy (gridAt grid (row p) (col p)) of
        None \<Rightarrow> None
      | Some special1 \<Rightarrow>
          (case isSpecialCandy (gridAt grid (row q) (col q)) of
             None \<Rightarrow> None
           | Some special2 \<Rightarrow>
               Some \<lparr>pos1 = p, pos2 = q, type1 = special1, type2 = special2,
                     combinationType = getCombinationType special1 special2\<rparr>))"

text \<open>\<^verbatim>\<open>wouldMatch\<close> swaps the two slots of the caller's grid in place, looks for a match and
  swaps back; the model returns the grid it leaves behind together with the answer.\<close>

definition wouldMatch :: "grid \<Rightarrow> pos \<Rightarrow> pos \<Rightarrow> (bool \<times> grid) option" where
  "wouldMatch grid p q =
     (if isSpecialCombination grid p q \<noteq> None then Some (True, grid)
      else
        (case readCell grid (row p) (col p) of None \<Rightarrow> None | Some temp \<Rightarrow>
        (case readCell grid (row q) (col q) of None \<Rightarrow> None | Some v \<Rightarrow>
        (case setCell grid (row p) (col p) v of None \<Rightarrow> None | Some g1 \<Rightarrow>
        (case setCell g1 (row q) (col q) temp of None \<Rightarrow> None | Some g2 \<Rightarrow>
          (let hasMatch = (hasMatchAt g2 p \<or> hasMatchAt g2 q) in
        (case readCell g2 (row p) (col p) of None \<Rightarrow> None | Some w \<Rightarrow>
        (case setCell g2 (row q) (col q) w of None \<Rightarrow> None | Some g3 \<Rightarrow>
        (case setCell g3 (row p) (col p) temp of None \<Rightarrow> None | Some g4 \<Rightarrow>
           Some (hasMatch, g4))))))))))"

text \<open>\<^verbatim>\<open>findPossibleMatch\<close>: the two nested loops, row-major, leaving at the first pair that
  would match. \<^verbatim>\<open>size\<close> is read once, before the loops.\<close>

function possibleFrom ::
  "nat \<Rightarrow> grid \<Rightarrow> nat \<Rightarrow> nat \<Rightarrow> ((pos \<times> pos) option \<times> grid) option" where
  "possibleFrom n grid r c =
     (if r < n then
        (if c < n then
           (case (if c < n - 1
                  then wouldMatch grid \<lparr>row = r, col = c\<rparr> \<lparr>row = r, col = c + 1\<rparr>
                  else Some (False, grid)) of
              None \<Rightarrow> None
            | Some (m1, g1) \<Rightarrow>
                if m1 then Some (Some (\<lparr>row = r, col = c\<rparr>, \<lparr>row = r, col = c + 1\<rparr>), g1)
                else
                  (case (if r < n - 1
                         then wouldMatch g1 \<lparr>row = r, col = c\<rparr> \<lparr>row = r + 1, col = c\<rparr>
                         else Some (False, g1)) of
                     None \<Rightarrow> None
                   | Some (m2, g2) \<Rightarrow>
                       if m2 then Some (Some (\<lparr>row = r, col = c\<rparr>, \<lparr>row = r + 1, col = c\<rparr>), g2)
                       else possibleFrom n g2 r (c + 1)))
         else possibleFrom n grid (r + 1) 0)
      else Some (None, grid))"
  by pat_completeness auto
termination
  by (relation "measures [\<lambda>(n, grid, r, c). n - r, \<lambda>(n, grid, r, c). n + 1 - c]") auto

definition findPossibleMatch :: "grid \<Rightarrow> ((pos \<times> pos) option \<times> grid) option" where
  "findPossibleMatch grid = possibleFrom (length grid) grid 0 0"

subsection \<open>Clear positions of a special tile and of a combination\<close>

definition getSpecialClearPositions :: "grid \<Rightarrow> 'a pos_scheme \<Rightarrow> special \<Rightarrow> cpos list" where
  "getSpecialClearPositions grid p specialType =
     (let size = length grid in
      case specialType of
        StripedH \<Rightarrow>
          map (\<lambda>c. \<lparr>row = row p, col = c, animation = Some ClearingRow\<rparr>) [0..<size]
      | StripedV \<Rightarrow>
          map (\<lambda>r. \<lparr>row = r, col = col p, animation = Some ClearingColumn\<rparr>) [0..<size]
      | Wrapped \<Rightarrow>
          concat (map (\<lambda>r. concat (map (\<lambda>c.
              if r \<ge> 0 \<and> r < int size \<and> c \<ge> 0 \<and> c < int size
              then [\<lparr>row = nat r, col = nat c, animation = Some Exploding\<rparr>] else [])
            [int (col p) - 1 .. int (col p) + 1]))
            [int (row p) - 1 .. int (row p) + 1]))"

text \<open>The helper \<^verbatim>\<open>addPos\<close> of \<^verbatim>\<open>getSpecialCombinationClearPositions\<close>, on the pair of
  \<^verbatim>\<open>positions\<close> and \<^verbatim>\<open>seen\<close>.\<close>

definition addPos ::
  "nat \<Rightarrow> animation \<Rightarrow> int \<Rightarrow> int \<Rightarrow> cpos list \<times> key list \<Rightarrow> cpos list \<times> key list" where
  "addPos n a r c acc =
     (case acc of (positions, seen) \<Rightarrow>
        if r \<ge> 0 \<and> r < int n \<and> c \<ge> 0 \<and> c < int n then
          (if (nat r, nat c) \<in> set seen then (positions, seen)
           else (positions @ [\<lparr>row = nat r, col = nat c, animation = Some a\<rparr>],
                 setAdd (nat r, nat c) seen))
        else (positions, seen))"

definition getSpecialCombinationClearPositions :: "grid \<Rightarrow> combination \<Rightarrow> cpos list" where
  "getSpecialCombinationClearPositions grid combination =
     (let size = length grid; p = pos1 combination; q = pos2 combination in
      fst (case combinationType combination of
        StripedStriped \<Rightarrow>
          fold (\<lambda>r. addPos size ClearingCross (int r) (int (col q))) [0..<size]
         (fold (\<lambda>c. addPos size ClearingCross (int (row q)) (int c)) [0..<size]
         (fold (\<lambda>r. addPos size ClearingCross (int r) (int (col p))) [0..<size]
         (fold (\<lambda>c. addPos size ClearingCross (int (row p)) (int c)) [0..<size] ([], []))))
      | StripedWrapped \<Rightarrow>
          fold (\<lambda>dc. fold (\<lambda>r. addPos size ClearingGiantCross (int r) (int (col p) + dc))
                  [0..<size]) [-1..1]
         (fold (\<lambda>dr. fold (\<lambda>c. addPos size ClearingGiantCross (int (row p) + dr) (int c))
                  [0..<size]) [-1..1] ([], []))
      | WrappedWrapped \<Rightarrow>
          fold (\<lambda>dr. fold (\<lambda>dc. addPos size MegaExploding (int (row p) + dr) (int (col p) + dc))
                  [-2..2]) [-2..2] ([], [])
      | Unknown \<Rightarrow> ([], [])))"

section \<open>Game.deduplicatePositions (js/game.js)\<close>

text \<open>\<^verbatim>\<open>positions.filter\<close> with the \<^verbatim>\<open>seen\<close> set: the first occurrence of each key stays.\<close>

fun dedupFrom :: "key list \<Rightarrow> cpos list \<Rightarrow> cpos list" where
  "dedupFrom seen [] = []"
| "dedupFrom seen (p # ps) =
     (if key p \<in> set seen then dedupFrom seen ps else p # dedupFrom (setAdd (key p) seen) ps)"

definition deduplicatePositions :: "cpos list \<Rightarrow> cpos list" where
  "deduplicatePositions positions = dedupFrom [] positions"

section \<open>The state of the three singletons, and Math.random\<close>

text \<open>
  \<^verbatim>\<open>Math.random()\<close> returns a number in \<open>[0, 1)\<close>. A run of the program is given the
  sequence \<open>rnd\<close> of the numbers its calls will return; the state counts the calls made.
\<close>

typedef rand = "{x::real. 0 \<le> x \<and> x < 1}"
  by (rule exI[of _ 0]) simp

text \<open>
  \<^verbatim>\<open>Grid.data\<close>, \<^verbatim>\<open>Game.moves\<close>, the three flags of \<^verbatim>\<open>Game\<close>, and the two counters of
  \<^verbatim>\<open>MemorySystem\<close>. \<^verbatim>\<open>Grid.size\<close> is written by \<^verbatim>\<open>Grid.init\<close> only, together with the
  rows of \<^verbatim>\<open>Grid.data\<close>, and no method adds or removes a row: it is read as
  \<open>length (data st)\<close>. The DOM (\<^verbatim>\<open>Grid.tiles\<close>, animations, sound) is not modelled, and an
  \<^verbatim>\<open>await\<close> returns at once with no other handler running in between.
\<close>

record state =
  data :: grid
  moves :: int
  isPlaying :: bool
  isPaused :: bool
  isProcessing :: bool
  revealedCount :: nat
  totalMemories :: nat
  randomCalls :: nat

definition mathRandom :: "(nat \<Rightarrow> rand) \<Rightarrow> state \<Rightarrow> real \<times> state" where
  "mathRandom rnd st = (Rep_rand (rnd (randomCalls st)), st\<lparr>randomCalls := randomCalls st + 1\<rparr>)"

section \<open>Grid (js/grid.js)\<close>

definition tileTypes :: "kind list" where
  "tileTypes = [Heart, Diamond, Rose, Star, Ring]"

definition gridInit :: "nat \<Rightarrow> state \<Rightarrow> state" where
  "gridInit n st = st\<lparr>data := replicate n []\<rparr>"

text \<open>\<^verbatim>\<open>this.data[r][c] = v\<close> inside a loop over \<^verbatim>\<open>r < this.size\<close>: the row exists.\<close>

definition writeCell :: "grid \<Rightarrow> nat \<Rightarrow> nat \<Rightarrow> cell \<Rightarrow> grid" where
  "writeCell grid r c v = grid[r := setCol (grid ! r) c v]"

definition getRandomType :: "(nat \<Rightarrow> rand) \<Rightarrow> state \<Rightarrow> kind \<times> state" where
  "getRandomType rnd st =
     (case mathRandom rnd st of (x, st') \<Rightarrow>
        (tileTypes ! nat \<lfloor>x * real (length tileTypes)\<rfloor>, st'))"

definition wouldCreateInitialMatch :: "grid \<Rightarrow> nat \<Rightarrow> nat \<Rightarrow> kind \<Rightarrow> bool" where
  "wouldCreateInitialMatch d r c t =
     (if c \<ge> 2 \<and> getTileType (gridAt d r (c - 1)) = Some t \<and>
         getTileType (gridAt d r (c - 2)) = Some t then True
      else if r \<ge> 2 \<and> getTileType (gridAt d (r - 1) c) = Some t \<and>
         getTileType (gridAt d (r - 2) c) = Some t then True
      else False)"

text \<open>The \<^verbatim>\<open>do { ... } while (attempts < 50 && wouldCreateInitialMatch(row, col, type))\<close>
  of \<^verbatim>\<open>generate\<close>; \<open>attempts\<close> is the count before the draw.\<close>

function pickType :: "(nat \<Rightarrow> rand) \<Rightarrow> nat \<Rightarrow> nat \<Rightarrow> nat \<Rightarrow> state \<Rightarrow> kind \<times> state" where
  "pickType rnd r c attempts st =
     (case getRandomType rnd st of (t, st') \<Rightarrow>
        if attempts + 1 < 50 \<and> wouldCreateInitialMatch (data st') r c t
        then pickType rnd r c (attempts + 1) st'
        else (t, st'))"
  by pat_completeness auto
termination
  by (relation "measure (\<lambda>(rnd, r, c, attempts, st). 50 - attempts)") auto

text \<open>An entry \<^verbatim>\<open>{row, col, memoryId}\<close> of \<^verbatim>\<open>memoryPositions\<close>.\<close>

record mempos = pos +
  posMemoryId :: nat

text \<open>The body of the two loops of \<^verbatim>\<open>generate\<close>, on the state and \<^verbatim>\<open>memoryIndex\<close>.\<close>

definition generateCell ::
  "(nat \<Rightarrow> rand) \<Rightarrow> mempos list \<Rightarrow> nat \<Rightarrow> nat \<Rightarrow> state \<times> nat \<Rightarrow> state \<times> nat" where
  "generateCell rnd memoryPositions r c acc =
     (case acc of (st, memoryIndex) \<Rightarrow>
      (case pickType rnd r c 0 st of (t, st') \<Rightarrow>
        (let isMem = ((r, c) \<in> set (map key memoryPositions));
             memId = (if isMem
                      then (if memoryIndex < length memoryPositions
                            then MemId (posMemoryId (memoryPositions ! memoryIndex))
                            else MemUndefined)
                      else MemNull);
             memoryIndex' = (if isMem then memoryIndex + 1 else memoryIndex)
         in (st'\<lparr>data := writeCell (data st') r c
                (Tile \<lparr>type = Some t, special = None, isMemory = isMem, memoryId = memId\<rparr>)\<rparr>,
             memoryIndex'))))"

definition generate :: "(nat \<Rightarrow> rand) \<Rightarrow> mempos list \<Rightarrow> state \<Rightarrow> state" where
  "generate rnd memoryPositions st =
     (let n = length (data st) in
      fst (fold (\<lambda>r. fold (generateCell rnd memoryPositions r) [0..<n]) [0..<n] (st, 0)))"

definition getTileData :: "grid \<Rightarrow> nat \<Rightarrow> nat \<Rightarrow> cell" where
  "getTileData d r c = (if r \<ge> length d \<or> c \<ge> length d then Null else gridAt d r c)"

text \<open>\<^verbatim>\<open>swapTiles\<close>, \<^verbatim>\<open>removeMatches\<close> and \<^verbatim>\<open>createSpecialCandy\<close> index \<^verbatim>\<open>this.data\<close> with
  positions of their caller; on a row that does not exist they throw.\<close>

definition swapTiles :: "pos \<Rightarrow> pos \<Rightarrow> state \<Rightarrow> state option" where
  "swapTiles p q st =
     (case readCell (data st) (row p) (col p) of None \<Rightarrow> None | Some temp \<Rightarrow>
     (case readCell (data st) (row q) (col q) of None \<Rightarrow> None | Some v \<Rightarrow>
     (case setCell (data st) (row p) (col p) v of None \<Rightarrow> None | Some g1 \<Rightarrow>
     (case setCell g1 (row q) (col q) temp of None \<Rightarrow> None | Some g2 \<Rightarrow>
        Some (st\<lparr>data := g2\<rparr>)))))"

text \<open>An entry \<^verbatim>\<open>{memoryId, row, col}\<close> of the list \<^verbatim>\<open>removeMatches\<close> returns.\<close>

record memoryTile = pos +
  tileMemoryId :: memid

fun collectMemoryTiles :: "grid \<Rightarrow> cpos list \<Rightarrow> memoryTile list option" where
  "collectMemoryTiles d [] = Some []"
| "collectMemoryTiles d (m # ms) =
     (case readCell d (row m) (col m) of None \<Rightarrow> None | Some x \<Rightarrow>
     (case collectMemoryTiles d ms of None \<Rightarrow> None | Some rest \<Rightarrow>
        Some ((case x of
                 Tile t \<Rightarrow>
                   if isMemory t \<and> memoryId t \<noteq> MemNull
                   then [\<lparr>row = row m, col = col m, tileMemoryId = memoryId t\<rparr>] else []
               | _ \<Rightarrow> []) @ rest)))"

fun clearData :: "grid \<Rightarrow> cpos list \<Rightarrow> grid option" where
  "clearData d [] = Some d"
| "clearData d (m # ms) =
     (case setCell d (row m) (col m) Null of None \<Rightarrow> None | Some d' \<Rightarrow> clearData d' ms)"

definition removeMatches :: "cpos list \<Rightarrow> state \<Rightarrow> (memoryTile list \<times> state) option" where
  "removeMatches ms st =
     (case collectMemoryTiles (data st) ms of None \<Rightarrow> None | Some memoryTiles \<Rightarrow>
     (case clearData (data st) ms of None \<Rightarrow> None | Some d \<Rightarrow>
        Some (memoryTiles, st\<lparr>data := d\<rparr>)))"

text \<open>The body of the inner loop of \<^verbatim>\<open>applyGravity\<close>, on the grid and \<^verbatim>\<open>emptyRow\<close>.\<close>

definition gravityStep :: "nat \<Rightarrow> nat \<Rightarrow> grid \<times> int \<Rightarrow> grid \<times> int" where
  "gravityStep c r acc =
     (case acc of (d, emptyRow) \<Rightarrow>
        if gridAt d r c \<noteq> Null then
          (if int r \<noteq> emptyRow
           then (writeCell (writeCell d (nat emptyRow) c (gridAt d r c)) r c Null, emptyRow - 1)
           else (d, emptyRow - 1))
        else (d, emptyRow))"

definition applyGravity :: "state \<Rightarrow> state" where
  "applyGravity st =
     (let n = length (data st) in
      st\<lparr>data := fold (\<lambda>c d. fst (fold (gravityStep c) (rev [0..<n]) (d, int n - 1)))
                    [0..<n] (data st)\<rparr>)"

text \<open>\<^verbatim>\<open>getHelpfulTypeForPosition\<close>: the two loops over \<^verbatim>\<open>dr\<close> and \<^verbatim>\<open>dc\<close> visit the
  candidates in the order of the list; the first memory tile met decides.\<close>

fun firstMemoryType :: "grid \<Rightarrow> (int \<times> int) list \<Rightarrow> kind option" where
  "firstMemoryType d [] = None"
| "firstMemoryType d ((nr, nc) # rest) =
     (if nr \<ge> 0 \<and> nr < int (length d) \<and> nc \<ge> 0 \<and> nc < int (length d) then
        (case gridAt d (nat nr) (nat nc) of
           Tile t \<Rightarrow> if isMemory t then type t else firstMemoryType d rest
         | _ \<Rightarrow> firstMemoryType d rest)
      else firstMemoryType d rest)"

definition getHelpfulTypeForPosition :: "grid \<Rightarrow> nat \<Rightarrow> nat \<Rightarrow> kind option" where
  "getHelpfulTypeForPosition d r c =
     firstMemoryType d
       (concat (map (\<lambda>dr. map (\<lambda>dc. (int r + dr, int c + dc)) [-2..2]) [-2..2]))"

text \<open>The body of the two loops of \<^verbatim>\<open>spawnNewTiles\<close>.\<close>

definition spawnCell :: "(nat \<Rightarrow> rand) \<Rightarrow> nat \<Rightarrow> nat \<Rightarrow> state \<Rightarrow> state" where
  "spawnCell rnd c r st =
     (if gridAt (data st) r c = Null then
        (case getRandomType rnd st of (t, st1) \<Rightarrow>
        (case mathRandom rnd st1 of (x, st2) \<Rightarrow>
           (let t' = (if x < 0.4
                      then (case getHelpfulTypeForPosition (data st2) r c of
                              Some helpfulType \<Rightarrow> helpfulType
                            | None \<Rightarrow> t)
                      else t)
            in st2\<lparr>data := writeCell (data st2) r c
                 (Tile \<lparr>type = Some t', special = None, isMemory = False, memoryId = MemNull\<rparr>)\<rparr>)))
      else st)"

definition spawnNewTiles :: "(nat \<Rightarrow> rand) \<Rightarrow> state \<Rightarrow> state" where
  "spawnNewTiles rnd st =
     (let n = length (data st) in fold (\<lambda>c. fold (spawnCell rnd c) [0..<n]) [0..<n] st)"

definition createSpecialCandy ::
  "nat \<Rightarrow> nat \<Rightarrow> special \<Rightarrow> kind option \<Rightarrow> state \<Rightarrow> state option" where
  "createSpecialCandy r c specialType candy st =
     (case setCell (data st) r c
             (Tile \<lparr>type = candy, special = Some specialType, isMemory = False,
                    memoryId = MemNull\<rparr>) of
        None \<Rightarrow> None
      | Some d \<Rightarrow> Some (st\<lparr>data := d\<rparr>))"

text \<open>\<^verbatim>\<open>hasPossibleMoves\<close> runs \<^verbatim>\<open>findPossibleMatch\<close> on \<^verbatim>\<open>this.data\<close> itself.\<close>

definition hasPossibleMoves :: "state \<Rightarrow> (bool \<times> state) option" where
  "hasPossibleMoves st =
     (case findPossibleMatch (data st) of
        None \<Rightarrow> None
      | Some (m, g) \<Rightarrow> Some (m \<noteq> None, st\<lparr>data := g\<rparr>))"

subsection \<open>shuffle\<close>

definition collectTiles :: "grid \<Rightarrow> tile list" where
  "collectTiles d =
     concat (map (\<lambda>r. concat (map (\<lambda>c. case gridAt d r c of Tile t \<Rightarrow> [t] | _ \<Rightarrow> [])
       [0..<length d])) [0..<length d])"

text \<open>One round of the Fisher-Yates loop \<^verbatim>\<open>for (i = allTiles.length - 1; i > 0; i--)\<close>.\<close>

definition fisherYatesStep ::
  "(nat \<Rightarrow> rand) \<Rightarrow> nat \<Rightarrow> tile list \<times> state \<Rightarrow> tile list \<times> state" where
  "fisherYatesStep rnd i acc =
     (case acc of (allTiles, st) \<Rightarrow>
      (case mathRandom rnd st of (x, st') \<Rightarrow>
        (let j = nat \<lfloor>x * real (i + 1)\<rfloor>
         in (allTiles[i := allTiles ! j, j := allTiles ! i], st'))))"

definition fisherYates :: "(nat \<Rightarrow> rand) \<Rightarrow> tile list \<Rightarrow> state \<Rightarrow> tile list \<times> state" where
  "fisherYates rnd allTiles st =
     fold (fisherYatesStep rnd) (rev [1..<length allTiles]) (allTiles, st)"

text \<open>\<^verbatim>\<open>this.data[row][col] = allTiles[index++]\<close>: beyond the end of \<^verbatim>\<open>allTiles\<close> the
  value read is \<^verbatim>\<open>undefined\<close>.\<close>

definition reassignCell :: "tile list \<Rightarrow> nat \<Rightarrow> nat \<Rightarrow> grid \<times> nat \<Rightarrow> grid \<times> nat" where
  "reassignCell allTiles r c acc =
     (case acc of (d, index) \<Rightarrow>
        (writeCell d r c (if index < length allTiles then Tile (allTiles ! index) else Undefined),
         index + 1))"

definition reassign :: "tile list \<Rightarrow> grid \<Rightarrow> grid" where
  "reassign allTiles d =
     fst (fold (\<lambda>r. fold (reassignCell allTiles r) [0..<length d]) [0..<length d] (d, 0))"

partial_function (option) shuffle :: "(nat \<Rightarrow> rand) \<Rightarrow> state \<Rightarrow> state option" where
  "shuffle rnd st =
     (case fisherYates rnd (collectTiles (data st)) st of (allTiles, st1) \<Rightarrow>
        (let st2 = st1\<lparr>data := reassign allTiles (data st1)\<rparr> in
         if matches (findAllMatches (data st2)) \<noteq> [] then shuffle rnd st2
         else
           (case hasPossibleMoves st2 of
              None \<Rightarrow> None
            | Some (possible, st3) \<Rightarrow> if \<not> possible then shuffle rnd st3 else Some st3)))"

section \<open>Asynchronous methods\<close>

text \<open>
  An asynchronous method of \<^verbatim>\<open>Game\<close> or \<^verbatim>\<open>Grid\<close>, looked at some time after its call, has returned, or
  is suspended on a promise that nothing is left to resolve, or is still going round one of
  its loops. In each case the singletons are in some state: \<open>Returned\<close>, \<open>Waiting\<close> and
  \<open>Running\<close> carry it. A call that throws has no outcome (\<open>None\<close>). The loops of
  \<^verbatim>\<open>processMatches\<close> and \<^verbatim>\<open>shuffle\<close> are given the number \<open>fuel\<close> of rounds after which they
  are looked at.
\<close>

datatype run = Returned state | Waiting state | Running state

primrec stateOf :: "run \<Rightarrow> state" where
  "stateOf (Returned st) = st"
| "stateOf (Waiting st) = st"
| "stateOf (Running st) = st"

text \<open>\<^verbatim>\<open>await f(); rest\<close>: the rest runs once the call has returned.\<close>

definition andThen :: "run option \<Rightarrow> (state \<Rightarrow> run option) \<Rightarrow> run option" where
  "andThen r f =
     (case r of
        None \<Rightarrow> None
      | Some x \<Rightarrow> (case x of Returned st \<Rightarrow> f st | _ \<Rightarrow> Some x))"

text \<open>\<^verbatim>\<open>shuffle\<close> once more, looked at after \<open>fuel\<close> rounds.\<close>

primrec shuffle_fuel :: "nat \<Rightarrow> (nat \<Rightarrow> rand) \<Rightarrow> state \<Rightarrow> run option" where
  "shuffle_fuel 0 rnd st = Some (Running st)"
| "shuffle_fuel (Suc fuel) rnd st =
     (case fisherYates rnd (collectTiles (data st)) st of (allTiles, st1) \<Rightarrow>
        (let st2 = st1\<lparr>data := reassign allTiles (data st1)\<rparr> in
         if matches (findAllMatches (data st2)) \<noteq> [] then shuffle_fuel fuel rnd st2
         else
           (case hasPossibleMoves st2 of
              None \<Rightarrow> None
            | Some (possible, st3) \<Rightarrow>
                if \<not> possible then shuffle_fuel fuel rnd st3 else Some (Returned st3))))"

section \<open>Game (js/game.js)\<close>

definition specialsToActivate :: "grid \<Rightarrow> pos list \<Rightarrow> (pos \<times> special) list" where
  "specialsToActivate d ms =
     concat (map (\<lambda>m. case getTileData d (row m) (col m) of
                         Tile t \<Rightarrow> (case special t of Some s \<Rightarrow> [(m, s)] | None \<Rightarrow> [])
                       | _ \<Rightarrow> []) ms)"

text \<open>\<^verbatim>\<open>allMatches\<close> and \<^verbatim>\<open>uniqueMatches\<close> of one pass of \<^verbatim>\<open>processMatches\<close>.\<close>

definition allMatches :: "grid \<Rightarrow> cpos list" where
  "allMatches d =
     map (\<lambda>m. \<lparr>row = row m, col = col m, animation = None\<rparr>) (matches (findAllMatches d)) @
     concat (map (\<lambda>(p, s). getSpecialClearPositions d p s)
               (specialsToActivate d (matches (findAllMatches d))))"

definition uniqueMatches :: "grid \<Rightarrow> cpos list" where
  "uniqueMatches d = deduplicatePositions (allMatches d)"

text \<open>The loop \<^verbatim>\<open>for (const special of specials)\<close> of \<^verbatim>\<open>processMatches\<close>, with its guard
  \<^verbatim>\<open>!clearedKeys.has(...)\<close>; \<open>specialsToCreate\<close> are the requests that pass the guard.\<close>

definition specialsToCreate :: "key list \<Rightarrow> spawn list \<Rightarrow> spawn list" where
  "specialsToCreate clearedKeys requests = filter (\<lambda>s. key s \<notin> set clearedKeys) requests"

fun createSpecials :: "spawn list \<Rightarrow> state \<Rightarrow> state option" where
  "createSpecials [] st = Some st"
| "createSpecials (s # ss) st =
     (case createSpecialCandy (row s) (col s) (stype s) (candyType s) st of
        None \<Rightarrow> None
      | Some st' \<Rightarrow> createSpecials ss st')"

text \<open>\<^verbatim>\<open>MemorySystem.revealMemory\<close> ignores its argument and reveals the next memory; the
  array \<^verbatim>\<open>memories\<close> has \<^verbatim>\<open>totalMemories\<close> entries. It returns \<^verbatim>\<open>false\<close>, and opens no
  overlay, when every memory has been revealed.\<close>

definition revealMemory :: "state \<Rightarrow> bool \<times> state" where
  "revealMemory st =
     (if revealedCount st \<ge> totalMemories st then (False, st)
      else (True, st\<lparr>revealedCount := revealedCount st + 1\<rparr>))"

text \<open>
  The loop \<^verbatim>\<open>for (const memory of memoryTiles)\<close> of \<^verbatim>\<open>processMatches\<close> and of
  \<^verbatim>\<open>processSpecialCombination\<close>. The promise of \<^verbatim>\<open>waitForClose\<close> is resolved by
  \<^verbatim>\<open>hideMemory\<close>, which only the handlers of the overlay call. When \<^verbatim>\<open>revealMemory\<close> has
  opened the overlay, the player may close it: \<open>closes n\<close> says whether the player closes
  the overlay of the \<open>n\<close>-th memory revealed. When \<^verbatim>\<open>revealMemory\<close> opened none, or the
  player leaves it open, the promise is never resolved and the call stays suspended,
  \<^verbatim>\<open>isPaused\<close> being set.
\<close>

fun revealMemories :: "(nat \<Rightarrow> bool) \<Rightarrow> memoryTile list \<Rightarrow> state \<Rightarrow> run" where
  "revealMemories closes [] st = Returned st"
| "revealMemories closes (memory # rest) st =
     (case revealMemory (st\<lparr>isPaused := True\<rparr>) of (opened, st1) \<Rightarrow>
        if opened \<and> closes (revealedCount st1)
        then revealMemories closes rest (st1\<lparr>isPaused := False\<rparr>) else Waiting st1)"

text \<open>\<^verbatim>\<open>processMatches\<close>: one unit of \<open>fuel\<close> for each test of \<^verbatim>\<open>while (hasMatches)\<close>.\<close>

primrec processMatches ::
  "nat \<Rightarrow> (nat \<Rightarrow> rand) \<Rightarrow> (nat \<Rightarrow> bool) \<Rightarrow> state \<Rightarrow> run option" where
  "processMatches 0 rnd closes st = Some (Running st)"
| "processMatches (Suc fuel) rnd closes st =
     (if matches (findAllMatches (data st)) = [] then Some (Returned st)
      else
        (case removeMatches (uniqueMatches (data st)) st of
           None \<Rightarrow> None
         | Some (memoryTiles, st1) \<Rightarrow>
             (case createSpecials
                     (specialsToCreate (map key (uniqueMatches (data st)))
                        (specials (findAllMatches (data st)))) st1 of
                None \<Rightarrow> None
              | Some st2 \<Rightarrow>
                  andThen (Some (revealMemories closes memoryTiles st2))
                    (\<lambda>st3. processMatches fuel rnd closes (spawnNewTiles rnd (applyGravity st3))))))"

text \<open>\<^verbatim>\<open>allPositions\<close> and \<^verbatim>\<open>uniquePositions\<close> of \<^verbatim>\<open>processSpecialCombination\<close>: the loop runs
  over the positions of the combination and appends the clear positions of every special
  tile found there, the two swapped positions apart.\<close>

definition allPositions :: "grid \<Rightarrow> pos \<Rightarrow> pos \<Rightarrow> cpos list \<Rightarrow> cpos list" where
  "allPositions d p q clearPositions =
     clearPositions @
     concat (map (\<lambda>cp.
        if (row cp = row p \<and> col cp = col p) \<or> (row cp = row q \<and> col cp = col q) then []
        else (case getTileData d (row cp) (col cp) of
                Tile t \<Rightarrow> (case special t of
                              Some s \<Rightarrow> getSpecialClearPositions d cp s
                            | None \<Rightarrow> [])
              | _ \<Rightarrow> [])) clearPositions)"

definition uniquePositions :: "grid \<Rightarrow> pos \<Rightarrow> pos \<Rightarrow> combination \<Rightarrow> cpos list" where
  "uniquePositions d p q combination =
     deduplicatePositions
       (allPositions d p q (getSpecialCombinationClearPositions d combination))"

definition processSpecialCombination ::
  "nat \<Rightarrow> (nat \<Rightarrow> rand) \<Rightarrow> (nat \<Rightarrow> bool) \<Rightarrow> pos \<Rightarrow> pos \<Rightarrow> combination \<Rightarrow> state \<Rightarrow>
   run option" where
  "processSpecialCombination fuel rnd closes p q combination st =
     (case swapTiles p q st of
        None \<Rightarrow> None
      | Some st1 \<Rightarrow>
          (let st2 = st1\<lparr>moves := moves st1 - 1\<rparr> in
           case removeMatches (uniquePositions (data st2) p q combination) st2 of
             None \<Rightarrow> None
           | Some (memoryTiles, st3) \<Rightarrow>
               andThen (Some (revealMemories closes memoryTiles st3))
                 (\<lambda>st4. processMatches fuel rnd closes (spawnNewTiles rnd (applyGravity st4)))))"

text \<open>The block "check win/lose conditions" that \<^verbatim>\<open>attemptSwap\<close> runs after either kind
  of successful swap: \<^verbatim>\<open>showVictory\<close> clears \<^verbatim>\<open>isPlaying\<close>, \<^verbatim>\<open>showBonusModal\<close> sets
  \<^verbatim>\<open>isPaused\<close>.\<close>

definition checkWinLose :: "nat \<Rightarrow> (nat \<Rightarrow> rand) \<Rightarrow> state \<Rightarrow> run option" where
  "checkWinLose fuel rnd st =
     (if revealedCount st \<ge> totalMemories st then Some (Returned (st\<lparr>isPlaying := False\<rparr>))
      else if moves st \<le> 0 then Some (Returned (st\<lparr>isPaused := True\<rparr>))
      else
        (case hasPossibleMoves st of
           None \<Rightarrow> None
         | Some (possible, st') \<Rightarrow>
             if \<not> possible then shuffle_fuel fuel rnd st' else Some (Returned st')))"

text \<open>The last two statements of \<^verbatim>\<open>attemptSwap\<close> on its two successful paths.\<close>

definition finishSwap :: "nat \<Rightarrow> (nat \<Rightarrow> rand) \<Rightarrow> state \<Rightarrow> run option" where
  "finishSwap fuel rnd st =
     andThen (checkWinLose fuel rnd st) (\<lambda>st'. Some (Returned (st'\<lparr>isProcessing := False\<rparr>)))"

definition attemptSwap ::
  "nat \<Rightarrow> (nat \<Rightarrow> rand) \<Rightarrow> (nat \<Rightarrow> bool) \<Rightarrow> pos \<Rightarrow> pos \<Rightarrow> state \<Rightarrow> run option" where
  "attemptSwap fuel rnd closes p q st0 =
     (let st = st0\<lparr>isProcessing := True\<rparr> in
      case isSpecialCombination (data st) p q of
        Some combination \<Rightarrow>
          andThen (processSpecialCombination fuel rnd closes p q combination st) (finishSwap fuel rnd)
      | None \<Rightarrow>
          (case wouldMatch (data st) p q of
             None \<Rightarrow> None
           | Some (would, g) \<Rightarrow>
               if \<not> would then Some (Returned (st\<lparr>data := g, isProcessing := False\<rparr>))
               else
                 (case swapTiles p q (st\<lparr>data := g\<rparr>) of
                    None \<Rightarrow> None
                  | Some st1 \<Rightarrow>
                      andThen (processMatches fuel rnd closes (st1\<lparr>moves := moves st1 - 1\<rparr>))
                        (finishSwap fuel rnd))))"

section \<open>Concrete boards\<close>

text \<open>Boards on which the theorems below are exercised. \<open>plain k\<close> is an ordinary tile of
  kind \<open>k\<close>, as \<^verbatim>\<open>spawnNewTiles\<close> creates it.\<close>

definition plain :: "kind \<Rightarrow> cell" where
  "plain k = Tile \<lparr>type = Some k, special = None, isMemory = False, memoryId = MemNull\<rparr>"

definition candy :: "kind \<Rightarrow> special \<Rightarrow> cell" where
  "candy k s = Tile \<lparr>type = Some k, special = Some s, isMemory = False, memoryId = MemNull\<rparr>"

definition board6 :: grid where
  "board6 =
    [map plain [Heart, Diamond, Rose, Star, Ring, Heart],
     map plain [Rose, Star, Ring, Heart, Diamond, Rose],
     [plain Ring, plain Heart, candy Diamond Wrapped, candy Rose Wrapped, plain Star, plain Ring],
     map plain [Diamond, Rose, Star, Ring, Heart, Diamond],
     map plain [Star, Ring, Heart, Diamond, Rose, Star],
     map plain [Heart, Diamond, Rose, Star, Ring, Heart]]"

section \<open>Bounds\<close>

text \<open>A position is in bounds when its row exists and its column lies within that row.\<close>

definition inBounds :: "grid \<Rightarrow> 'a pos_scheme \<Rightarrow> bool" where
  "inBounds grid p = (row p < length grid \<and> col p < length (grid ! row p))"

section \<open>Combination classification\<close>

lemma getCombinationType_sym: "getCombinationType t1 t2 = getCombinationType t2 t1"
  by (cases t1; cases t2) (simp_all add: getCombinationType_def isStriped_def isWrapped_def)

text \<open>
  Claim C10. Classification of a special-special pair does not depend on the order of the
  two positions: \<^verbatim>\<open>isSpecialCombination(grid, pos1, pos2)\<close> and
  \<^verbatim>\<open>isSpecialCombination(grid, pos2, pos1)\<close> are both null or both combinations of the same
  \<^verbatim>\<open>combinationType\<close>, and \<^verbatim>\<open>getCombinationType\<close> is symmetric on all nine pairs of special
  kinds.
\<close>

theorem combination_type_symmetric:
  "map_option combinationType (isSpecialCombination grid p q) =
     map_option combinationType (isSpecialCombination grid q p)
   \<and> (isSpecialCombination grid p q = None \<longleftrightarrow>
        isSpecialCandy (gridAt grid (row p) (col p)) = None \<or>
        isSpecialCandy (gridAt grid (row q) (col q)) = None)
   \<and> (\<forall>t1 t2. getCombinationType t1 t2 = getCombinationType t2 t1)"
  by (auto simp: isSpecialCombination_def getCombinationType_sym split: option.splits)

section \<open>Sizes of clear sets\<close>

lemma upto_around1: "[i - 1 .. i + 1] = [i - 1, i, i + 1]"
  by (simp add: upto_rec1)

lemma upto_minus2_2: "[-2 .. 2::int] = [-2, -1, 0, 1, 2]"
  by (simp add: upto_rec1)

lemma addPos_fresh:
  "0 \<le> r \<Longrightarrow> r < int n \<Longrightarrow> 0 \<le> c \<Longrightarrow> c < int n \<Longrightarrow> (nat r, nat c) \<notin> set seen \<Longrightarrow>
   addPos n a r c (ps, seen) =
     (ps @ [\<lparr>row = nat r, col = nat c, animation = Some a\<rparr>], seen @ [(nat r, nat c)])"
  by (simp add: addPos_def setAdd_def)

lemma wrapped_wrapped_interior:
  assumes "length grid = N" "2 \<le> row (pos1 cb)" "row (pos1 cb) + 2 < N"
    "2 \<le> col (pos1 cb)" "col (pos1 cb) + 2 < N" "combinationType cb = WrappedWrapped"
  shows "length (getSpecialCombinationClearPositions grid cb) = 25 \<and>
         distinct (map key (getSpecialCombinationClearPositions grid cb))"
proof -
  obtain r0 c0 where rc: "row (pos1 cb) = r0 + 2" "col (pos1 cb) = c0 + 2"
    using assms by (metis add.commute le_Suc_ex)
  have b: "r0 + 4 < N" "c0 + 4 < N" using assms rc by auto
  show ?thesis
    using b unfolding getSpecialCombinationClearPositions_def Let_def upto_minus2_2
    by (simp add: assms(1,6) rc addPos_fresh key_def nat_add_distrib)
qed

lemma wrapped_corner:
  assumes "length grid = N" "2 \<le> N" "row p = 0 \<or> row p = N - 1" "col p = 0 \<or> col p = N - 1"
  shows "length (getSpecialClearPositions grid p Wrapped) = 4 \<and>
         distinct (map key (getSpecialClearPositions grid p Wrapped))"
proof -
  obtain m where m: "N = m + 2"
    using assms(2) by (metis add.commute le_Suc_ex)
  have i: "int (m + 2 - 1) = int m + 1" by simp
  show ?thesis
    using assms(3,4) unfolding getSpecialClearPositions_def Let_def upto_around1 assms(1) m
    by (auto simp: key_def i nat_add_distrib)
qed

lemma striped_line:
  assumes "length grid = N"
  shows "length (getSpecialClearPositions grid p StripedH) = N \<and>
         distinct (map key (getSpecialClearPositions grid p StripedH)) \<and>
         length (getSpecialClearPositions grid p StripedV) = N \<and>
         distinct (map key (getSpecialClearPositions grid p StripedV))"
  using assms
  by (simp add: getSpecialClearPositions_def key_def distinct_map inj_on_def comp_def)

text \<open>
  Claim C7. On a board of \<open>N\<close> rows, \<open>6 \<le> N \<le> 10\<close>: a wrapped-wrapped combination whose
  \<^verbatim>\<open>pos1\<close> is at least two cells from every edge clears exactly 25 positions, all different;
  a wrapped special at one of the four corners clears exactly 4 different positions; a
  striped special (row-clearing or column-clearing) clears exactly \<open>N\<close> different positions.
\<close>

theorem clear_set_sizes:
  assumes "length grid = N" "6 \<le> N" "N \<le> 10"
  shows "(combinationType cb = WrappedWrapped \<and> 2 \<le> row (pos1 cb) \<and> row (pos1 cb) + 2 < N \<and>
          2 \<le> col (pos1 cb) \<and> col (pos1 cb) + 2 < N \<longrightarrow>
            length (getSpecialCombinationClearPositions grid cb) = 25 \<and>
            distinct (map key (getSpecialCombinationClearPositions grid cb)))
       \<and> ((row p = 0 \<or> row p = N - 1) \<and> (col p = 0 \<or> col p = N - 1) \<longrightarrow>
            length (getSpecialClearPositions grid p Wrapped) = 4 \<and>
            distinct (map key (getSpecialClearPositions grid p Wrapped)))
       \<and> length (getSpecialClearPositions grid p StripedH) = N
       \<and> distinct (map key (getSpecialClearPositions grid p StripedH))
       \<and> length (getSpecialClearPositions grid p StripedV) = N
       \<and> distinct (map key (getSpecialClearPositions grid p StripedV))"
proof -
  have "2 \<le> N" using assms(2) by simp
  then show ?thesis
    using wrapped_wrapped_interior[OF assms(1)] wrapped_corner[OF assms(1)]
      striped_line[OF assms(1)]
    by blast
qed

theorem clear_set_sizes_witness:
  "length board6 = 6
   \<and> length (getSpecialCombinationClearPositions board6
       \<lparr>pos1 = \<lparr>row = 2, col = 2\<rparr>, pos2 = \<lparr>row = 2, col = 3\<rparr>, type1 = Wrapped,
        type2 = Wrapped, combinationType = WrappedWrapped\<rparr>) = 25
   \<and> length (getSpecialClearPositions board6 \<lparr>row = 5, col = 0\<rparr> Wrapped) = 4
   \<and> length (getSpecialClearPositions board6 \<lparr>row = 5, col = 0\<rparr> StripedH) = 6
   \<and> length (getSpecialClearPositions board6 \<lparr>row = 5, col = 0\<rparr> StripedV) = 6"
proof -
  have l: "length board6 = 6" by (simp add: board6_def)
  show ?thesis
    using l clear_set_sizes[OF l, of
        "\<lparr>pos1 = \<lparr>row = 2, col = 2\<rparr>, pos2 = \<lparr>row = 2, col = 3\<rparr>, type1 = Wrapped,
          type2 = Wrapped, combinationType = WrappedWrapped\<rparr>" "\<lparr>row = 5, col = 0\<rparr>"]
    by simp
qed

section \<open>wouldMatch leaves the board as it found it\<close>

lemma setCell_in:
  "r < length g \<Longrightarrow> c < length (g ! r) \<Longrightarrow> setCell g r c v = Some (g[r := (g ! r)[c := v]])"
  by (simp add: setCell_def setCol_def)

lemma readCell_in:
  "r < length g \<Longrightarrow> c < length (g ! r) \<Longrightarrow> readCell g r c = Some (g ! r ! c)"
  by (simp add: readCell_def gridAt_def)

lemma swap_restore:
  assumes "rp < length g" "cp < length (g ! rp)" "rq < length g" "cq < length (g ! rq)"
  defines "g1 \<equiv> g[rp := (g ! rp)[cp := g ! rq ! cq]]"
  defines "g2 \<equiv> g1[rq := (g1 ! rq)[cq := g ! rp ! cp]]"
  defines "g3 \<equiv> g2[rq := (g2 ! rq)[cq := g2 ! rp ! cp]]"
  shows "g3[rp := (g3 ! rp)[cp := g ! rp ! cp]] = g"
  using assms(1-4) unfolding g1_def g2_def g3_def
  by (cases "rp = rq"; cases "cp = cq") (auto simp: list_eq_iff_nth_eq nth_list_update)

lemma wouldMatch_restores:
  assumes "inBounds grid p" "inBounds grid q"
  shows "\<exists>b. wouldMatch grid p q = Some (b, grid)"
proof (cases "isSpecialCombination grid p q")
  case (Some a)
  then show ?thesis by (auto simp: wouldMatch_def)
next
  case None
  let ?rp = "row p" and ?cp = "col p" and ?rq = "row q" and ?cq = "col q"
  from assms have b: "?rp < length grid" "?cp < length (grid ! ?rp)"
      "?rq < length grid" "?cq < length (grid ! ?rq)"
    by (auto simp: inBounds_def)
  define g1 where "g1 = grid[?rp := (grid ! ?rp)[?cp := grid ! ?rq ! ?cq]]"
  define g2 where "g2 = g1[?rq := (g1 ! ?rq)[?cq := grid ! ?rp ! ?cp]]"
  define g3 where "g3 = g2[?rq := (g2 ! ?rq)[?cq := g2 ! ?rp ! ?cp]]"
  have l1: "length g1 = length grid" "?cq < length (g1 ! ?rq)" "?cp < length (g1 ! ?rp)"
    using b by (auto simp: g1_def nth_list_update)
  have l2: "length g2 = length grid" "?cp < length (g2 ! ?rp)" "?cq < length (g2 ! ?rq)"
    using b l1 by (auto simp: g2_def nth_list_update)
  have l3: "length g3 = length grid" "?cp < length (g3 ! ?rp)"
    using b l2 by (auto simp: g3_def nth_list_update)
  have s1: "setCell grid ?rp ?cp (grid ! ?rq ! ?cq) = Some g1"
    using b by (simp add: setCell_in g1_def)
  have s2: "setCell g1 ?rq ?cq (grid ! ?rp ! ?cp) = Some g2"
    using b l1 by (simp add: setCell_in g2_def)
  have s3: "setCell g2 ?rq ?cq (g2 ! ?rp ! ?cp) = Some g3"
    using b l2 by (simp add: setCell_in g3_def)
  have s4: "setCell g3 ?rp ?cp (grid ! ?rp ! ?cp) = Some grid"
    using b l3 swap_restore[OF b] by (simp add: setCell_in g3_def g2_def g1_def)
  show ?thesis
    using None b l2 by (auto simp: wouldMatch_def readCell_in s1 s2 s3 s4 Let_def)
qed

text \<open>
  Claim C3. For every board and every two in-bounds positions, \<^verbatim>\<open>wouldMatch\<close> returns, and
  the board it leaves behind is the board it was given: whatever the answer, and whether
  or not the special-combination shortcut was taken.
\<close>

theorem wouldMatch_board_unchanged:
  assumes "inBounds grid p" "inBounds grid q"
  shows "(\<exists>b. wouldMatch grid p q = Some (b, grid))
       \<and> (isSpecialCombination grid p q \<noteq> None \<longrightarrow> wouldMatch grid p q = Some (True, grid))"
  using wouldMatch_restores[OF assms] by (simp add: wouldMatch_def)

theorem wouldMatch_board_unchanged_witness:
  "inBounds board6 \<lparr>row = 0, col = 0\<rparr> \<and> inBounds board6 \<lparr>row = 0, col = 1\<rparr>
   \<and> (\<exists>b. wouldMatch board6 \<lparr>row = 0, col = 0\<rparr> \<lparr>row = 0, col = 1\<rparr> = Some (b, board6))"
proof -
  have a: "inBounds board6 \<lparr>row = 0, col = 0\<rparr>" "inBounds board6 \<lparr>row = 0, col = 1\<rparr>"
    by (simp_all add: inBounds_def board6_def)
  show ?thesis
    using a wouldMatch_board_unchanged[OF a] by simp
qed

section \<open>The two scanning loops of findAllMatches\<close>

text \<open>The loops are unfolded one round at a time: \<open>hlink\<close> is the test of the inner
  \<^verbatim>\<open>if\<close> of the horizontal pass, \<open>hEmit\<close> what its \<^verbatim>\<open>else\<close> branch does to the two
  accumulators before it resets \<^verbatim>\<open>matchStart\<close> and \<^verbatim>\<open>matchLength\<close>; \<open>vlink\<close> and \<open>vEmit\<close>
  are the same for the vertical pass.\<close>

declare hscan.simps [simp del] vscan.simps [simp del] countRight.simps [simp del]
  countDown.simps [simp del] pickType.simps [simp del]

definition hlink :: "grid \<Rightarrow> nat \<Rightarrow> nat \<Rightarrow> bool" where
  "hlink grid r c = (c < length grid \<and> truthy (gridAt grid r c) \<and> truthy (gridAt grid r (c - 1)) \<and>
            getTileType (gridAt grid r c) = getTileType (gridAt grid r (c - 1)))"

definition hEmit :: "grid \<Rightarrow> nat \<Rightarrow> nat \<Rightarrow> nat \<Rightarrow> key list \<times> spawn list \<Rightarrow> key list \<times> spawn list" where
  "hEmit grid r ms ml acc =
     (if 3 \<le> ml then
        (fold (\<lambda>i. setAdd (r, i)) [ms..<ms + ml] (fst acc),
         if ml = 4 then
           snd acc @ [\<lparr>row = r, col = ms + ml div 2, stype = StripedH,
                       candyType = getTileType (gridAt grid r ms)\<rparr>]
         else if 5 \<le> ml then
           snd acc @ [\<lparr>row = r, col = ms + ml div 2, stype = Wrapped,
                       candyType = getTileType (gridAt grid r ms)\<rparr>]
         else snd acc)
      else acc)"

lemma hscan_stop: "\<not> c \<le> length grid \<Longrightarrow> hscan grid r c ms ml acc = acc"
  by (cases acc) (simp add: hscan.simps)

lemma hscan_link:
  "c \<le> length grid \<Longrightarrow> hlink grid r c \<Longrightarrow>
   hscan grid r c ms ml acc = hscan grid r (c + 1) ms (ml + 1) acc"
  by (cases acc, hypsubst, subst hscan.simps, simp add: hlink_def)

lemma hscan_break:
  "c \<le> length grid \<Longrightarrow> \<not> hlink grid r c \<Longrightarrow>
   hscan grid r c ms ml acc = hscan grid r (c + 1) c 1 (hEmit grid r ms ml acc)"
  by (cases acc, hypsubst, subst hscan.simps, auto simp add: hlink_def hEmit_def)


section \<open>Every spawn request sits on a matched position\<close>

lemma set_fold_setAdd: "set (fold (\<lambda>i. setAdd (f i)) xs ks) = set ks \<union> f ` set xs"
  by (induction xs arbitrary: ks) (auto simp: setAdd_def)

definition spawnsMatched :: "key list \<times> spawn list \<Rightarrow> bool" where
  "spawnsMatched acc = (\<forall>s \<in> set (snd acc). key s \<in> set (fst acc))"

lemma hEmit_spawnsMatched:
  "spawnsMatched acc \<Longrightarrow> 1 \<le> ml \<Longrightarrow> spawnsMatched (hEmit grid r ms ml acc)"
proof -
  assume a: "spawnsMatched acc" "1 \<le> ml"
  have mid: "ms + ml div 2 \<in> set [ms..<ms + ml]" using a(2) by simp
  show ?thesis using a(1) mid
    by (auto simp: spawnsMatched_def hEmit_def set_fold_setAdd key_def)
qed

lemma hscan_spawnsMatched:
  "spawnsMatched acc \<Longrightarrow> 1 \<le> ml \<Longrightarrow> spawnsMatched (hscan grid r c ms ml acc)"
proof (induction "Suc (length grid) - c" arbitrary: c ms ml acc)
  case 0
  then show ?case by (simp add: hscan_stop)
next
  case (Suc n)
  then have c: "c \<le> length grid" by simp
  show ?case
  proof (cases "hlink grid r c")
    case True
    then show ?thesis using Suc c by (simp add: hscan_link)
  next
    case False
    then show ?thesis using Suc c hEmit_spawnsMatched[of acc ml grid r ms]
      by (simp add: hscan_break)
  qed
qed

definition vlink :: "grid \<Rightarrow> nat \<Rightarrow> nat \<Rightarrow> bool" where
  "vlink grid c r = (r < length grid \<and> truthy (gridAt grid r c) \<and> truthy (gridAt grid (r - 1) c) \<and>
            getTileType (gridAt grid r c) = getTileType (gridAt grid (r - 1) c))"

definition vEmit :: "grid \<Rightarrow> nat \<Rightarrow> nat \<Rightarrow> nat \<Rightarrow> key list \<times> spawn list \<Rightarrow> key list \<times> spawn list" where
  "vEmit grid c ms ml acc =
     (if 3 \<le> ml then
        (fold (\<lambda>i. setAdd (i, c)) [ms..<ms + ml] (fst acc),
         if ml = 4 then
           snd acc @ [\<lparr>row = ms + ml div 2, col = c, stype = StripedV,
                       candyType = getTileType (gridAt grid ms c)\<rparr>]
         else if 5 \<le> ml then
           snd acc @ [\<lparr>row = ms + ml div 2, col = c, stype = Wrapped,
                       candyType = getTileType (gridAt grid ms c)\<rparr>]
         else snd acc)
      else acc)"

lemma vscan_stop: "\<not> r \<le> length grid \<Longrightarrow> vscan grid c r ms ml acc = acc"
  by (cases acc) (simp add: vscan.simps)

lemma vscan_link:
  "r \<le> length grid \<Longrightarrow> vlink grid c r \<Longrightarrow>
   vscan grid c r ms ml acc = vscan grid c (r + 1) ms (ml + 1) acc"
  by (cases acc, hypsubst, subst vscan.simps, simp add: vlink_def)

lemma vscan_break:
  "r \<le> length grid \<Longrightarrow> \<not> vlink grid c r \<Longrightarrow>
   vscan grid c r ms ml acc = vscan grid c (r + 1) r 1 (vEmit grid c ms ml acc)"
  by (cases acc, hypsubst, subst vscan.simps, auto simp add: vlink_def vEmit_def)

lemma vEmit_spawnsMatched:
  "spawnsMatched acc \<Longrightarrow> 1 \<le> ml \<Longrightarrow> spawnsMatched (vEmit grid c ms ml acc)"
proof -
  assume a: "spawnsMatched acc" "1 \<le> ml"
  have mid: "ms + ml div 2 \<in> set [ms..<ms + ml]" using a(2) by simp
  show ?thesis using a(1) mid
    by (auto simp: spawnsMatched_def vEmit_def set_fold_setAdd key_def)
qed

lemma vscan_spawnsMatched:
  "spawnsMatched acc \<Longrightarrow> 1 \<le> ml \<Longrightarrow> spawnsMatched (vscan grid c r ms ml acc)"
proof (induction "Suc (length grid) - r" arbitrary: r ms ml acc)
  case 0
  then show ?case by (simp add: vscan_stop)
next
  case (Suc n)
  then have r: "r \<le> length grid" by simp
  show ?case
  proof (cases "vlink grid c r")
    case True
    then show ?thesis using Suc r by (simp add: vscan_link)
  next
    case False
    then show ?thesis using Suc r vEmit_spawnsMatched[of acc ml grid c ms]
      by (simp add: vscan_break)
  qed
qed

lemma passes_spawnsMatched: "spawnsMatched (verticalPass grid (horizontalPass grid))"
proof -
  have h: "spawnsMatched acc \<Longrightarrow> spawnsMatched (fold (\<lambda>r. hscan grid r 1 0 1) rs acc)" for rs acc
    by (induction rs arbitrary: acc) (simp_all add: hscan_spawnsMatched)
  have v: "spawnsMatched acc \<Longrightarrow> spawnsMatched (fold (\<lambda>c. vscan grid c 1 0 1) cs acc)" for cs acc
    by (induction cs arbitrary: acc) (simp_all add: vscan_spawnsMatched)
  have "spawnsMatched ([], [])" by (simp add: spawnsMatched_def)
  then show ?thesis unfolding verticalPass_def horizontalPass_def by (intro v h)
qed

lemma ltStep_keys:
  "\<forall>s\<in>set (fst acc). key s \<in> K \<Longrightarrow> p \<in> K \<Longrightarrow> \<forall>s\<in>set (fst (ltStep grid p acc)). key s \<in> K"
  by (auto simp: ltStep_def Let_def key_def split: prod.splits option.splits)

lemma fold_ltStep_keys:
  "\<forall>s\<in>set (fst acc). key s \<in> K \<Longrightarrow> set ps \<subseteq> K \<Longrightarrow>
   \<forall>s\<in>set (fst (fold (ltStep grid) ps acc)). key s \<in> K"
proof (induction ps arbitrary: acc)
  case Nil
  then show ?case by simp
next
  case (Cons p ps)
  have "\<forall>s\<in>set (fst (ltStep grid p acc)). key s \<in> K"
    using Cons.prems by (intro ltStep_keys) auto
  then show ?case using Cons by simp
qed

lemma findLTShapes_keys: "\<forall>s\<in>set (findLTShapes grid mp). key s \<in> set mp"
  unfolding findLTShapes_def by (rule fold_ltStep_keys) simp_all

lemma matches_keys:
  "map key (matches (findAllMatches grid)) = fst (verticalPass grid (horizontalPass grid))"
  by (simp add: findAllMatches_def key_def comp_def case_prod_beta split: prod.splits)

lemma specials_in_matches:
  "\<forall>s \<in> set (specials (findAllMatches grid)). key s \<in> set (map key (matches (findAllMatches grid)))"
  using passes_spawnsMatched[of grid] findLTShapes_keys[of grid "fst (verticalPass grid (horizontalPass grid))"]
  unfolding matches_keys
  by (auto simp: findAllMatches_def spawnsMatched_def split: prod.splits)

lemma dedupFrom_keys: "key ` set (dedupFrom seen ps) = key ` set ps - set seen"
  by (induction ps arbitrary: seen) (auto simp: setAdd_def)

lemma deduplicatePositions_keys: "key ` set (deduplicatePositions ps) = key ` set ps"
  by (simp add: deduplicatePositions_def dedupFrom_keys)

lemma matches_in_uniqueMatches:
  "set (map key (matches (findAllMatches grid))) \<subseteq> set (map key (uniqueMatches grid))"
proof -
  have u: "key ` set (uniqueMatches grid) = key ` set (allMatches grid)"
    by (simp add: uniqueMatches_def deduplicatePositions_keys)
  have "key m \<in> key ` set (allMatches grid)" if "m \<in> set (matches (findAllMatches grid))" for m
  proof -
    have "\<lparr>row = row m, col = col m, animation = None\<rparr> \<in> set (allMatches grid)"
      using that by (auto simp: allMatches_def)
    moreover have "key \<lparr>row = row m, col = col m, animation = None\<rparr> = key m"
      by (simp add: key_def)
    ultimately show ?thesis by (metis imageI)
  qed
  then show ?thesis using u by auto
qed

definition board5 :: grid where
  "board5 =
    [map plain [Heart, Heart, Heart, Heart, Star],
     map plain [Rose, Diamond, Rose, Diamond, Star],
     map plain [Diamond, Diamond, Diamond, Rose, Star],
     map plain [Rose, Ring, Rose, Ring, Star],
     map plain [Ring, Rose, Ring, Rose, Star]]"

text \<open>
  Claim C2. Every spawn request that \<^verbatim>\<open>findAllMatches\<close> returns, from a run of length 4 or
  more or from the L/T detection, has its position among the matches of the same call.
  Hence the guard \<^verbatim>\<open>!clearedKeys.has(...)\<close> of \<^verbatim>\<open>processMatches\<close> lets no request through
  whenever the cleared keys contain every matched position, and in particular for the
  \<^verbatim>\<open>clearedKeys\<close> that \<^verbatim>\<open>processMatches\<close> computes.
\<close>

theorem spawn_requests_on_matched_positions:
  "(\<forall>s \<in> set (specials (findAllMatches grid)).
      key s \<in> set (map key (matches (findAllMatches grid))))
   \<and> (set (map key (matches (findAllMatches grid))) \<subseteq> set clearedKeys \<longrightarrow>
        specialsToCreate clearedKeys (specials (findAllMatches grid)) = [])
   \<and> specialsToCreate (map key (uniqueMatches grid)) (specials (findAllMatches grid)) = []"
  using specials_in_matches[of grid] matches_in_uniqueMatches[of grid]
  by (auto simp: specialsToCreate_def filter_empty_conv)

theorem spawn_requests_on_matched_positions_witness:
  "\<lparr>row = 0, col = 2, stype = StripedH, candyType = Some Heart\<rparr>
     \<in> set (specials (findAllMatches board5))
   \<and> (0, 2) \<in> set (map key (matches (findAllMatches board5)))
   \<and> specialsToCreate (map key (uniqueMatches board5)) (specials (findAllMatches board5)) = []"
proof -
  have m: "\<lparr>row = 0, col = 2, stype = StripedH, candyType = Some Heart\<rparr>
             \<in> set (specials (findAllMatches board5))"
    by code_simp
  show ?thesis
    using m spawn_requests_on_matched_positions[of board5 "map key (uniqueMatches board5)"]
    by (auto simp: key_def)
qed

section \<open>Run length to spawn request\<close>

text \<open>
  What the specification calls a maximal straight run: \<open>hRun grid r s n k\<close> says that in
  row \<open>r\<close> the \<open>n\<close> cells from column \<open>s\<close> on hold tiles of kind \<open>k\<close>, and that the cell
  before and the cell after, where the board has them, do not. \<open>vRun\<close> is the same in
  column \<open>c\<close> from row \<open>s\<close> on. \<open>inHSpan\<close> and \<open>inVSpan\<close> select the requests placed on the
  cells of a run.
\<close>

definition hRun :: "grid \<Rightarrow> nat \<Rightarrow> nat \<Rightarrow> nat \<Rightarrow> kind \<Rightarrow> bool" where
  "hRun grid r s n k =
     (r < length grid \<and> 1 \<le> n \<and> s + n \<le> length grid \<and>
      (\<forall>c \<in> set [s..<s + n]. getTileType (gridAt grid r c) = Some k) \<and>
      (s = 0 \<or> getTileType (gridAt grid r (s - 1)) \<noteq> Some k) \<and>
      (s + n = length grid \<or> getTileType (gridAt grid r (s + n)) \<noteq> Some k))"

definition inHSpan :: "nat \<Rightarrow> nat \<Rightarrow> nat \<Rightarrow> spawn \<Rightarrow> bool" where
  "inHSpan r s n q = (row q = r \<and> s \<le> col q \<and> col q < s + n)"

definition hExpected :: "nat \<Rightarrow> nat \<Rightarrow> nat \<Rightarrow> kind \<Rightarrow> spawn list" where
  "hExpected r s n k =
     (if n = 4 then [\<lparr>row = r, col = s + n div 2, stype = StripedH, candyType = Some k\<rparr>]
      else if 5 \<le> n then [\<lparr>row = r, col = s + n div 2, stype = Wrapped, candyType = Some k\<rparr>]
      else [])"

lemma getTileType_truthy: "getTileType x = Some k \<Longrightarrow> truthy x"
  by (cases x) (simp_all add: getTileType_def truthy_def)

lemma hRun_cell:
  "hRun grid r s n k \<Longrightarrow> s \<le> c \<Longrightarrow> c < s + n \<Longrightarrow> getTileType (gridAt grid r c) = Some k"
  by (simp add: hRun_def)

lemma hRun_link:
  assumes "hRun grid r s n k" "s < c" "c < s + n"
  shows "hlink grid r c"
proof -
  have a: "getTileType (gridAt grid r c) = Some k"
    using assms by (intro hRun_cell[OF assms(1)]) auto
  have b: "getTileType (gridAt grid r (c - 1)) = Some k"
    using assms by (intro hRun_cell[OF assms(1)]) auto
  have "c < length grid" using assms by (simp add: hRun_def)
  then show ?thesis using a b by (simp add: hlink_def getTileType_truthy)
qed

lemma hRun_start:
  assumes h: "hRun grid r s n k" and s: "0 < s"
  shows "\<not> hlink grid r s"
proof -
  have "1 \<le> n" using h by (simp add: hRun_def)
  then have a: "getTileType (gridAt grid r s) = Some k"
    by (intro hRun_cell[OF h]) auto
  have "s = 0 \<or> getTileType (gridAt grid r (s - 1)) \<noteq> Some k"
    using h by (simp add: hRun_def)
  then have "getTileType (gridAt grid r (s - 1)) \<noteq> Some k" using s by simp
  then show ?thesis using a by (simp add: hlink_def)
qed

lemma hRun_end: "hRun grid r s n k \<Longrightarrow> \<not> hlink grid r (s + n)"
proof -
  assume h: "hRun grid r s n k"
  then have "1 \<le> n" by (simp add: hRun_def)
  then have "getTileType (gridAt grid r (s + n - 1)) = Some k"
    by (intro hRun_cell[OF h]) auto
  moreover have "s + n = length grid \<or> getTileType (gridAt grid r (s + n)) \<noteq> Some k"
    using h by (simp add: hRun_def)
  ultimately show ?thesis using \<open>1 \<le> n\<close> by (cases "s + n = length grid") (simp_all add: hlink_def)
qed

lemma hEmit_filter_out:
  "1 \<le> ml \<Longrightarrow> (\<And>q. row q = r \<Longrightarrow> ms \<le> col q \<Longrightarrow> col q < ms + ml \<Longrightarrow> \<not> Q q) \<Longrightarrow>
   filter Q (snd (hEmit grid r ms ml acc)) = filter Q (snd acc)"
  by (auto simp: hEmit_def)

lemma hscan_filter_out:
  assumes "\<And>q. row q = r \<Longrightarrow> lo \<le> col q \<Longrightarrow> \<not> Q q"
  shows "lo \<le> ms \<Longrightarrow> lo \<le> c \<Longrightarrow> 1 \<le> ml \<Longrightarrow>
         filter Q (snd (hscan grid r c ms ml acc)) = filter Q (snd acc)"
proof (induction "Suc (length grid) - c" arbitrary: c ms ml acc)
  case 0
  then show ?case by (simp add: hscan_stop)
next
  case (Suc x)
  then have c: "c \<le> length grid" by simp
  show ?case
  proof (cases "hlink grid r c")
    case True
    then show ?thesis using Suc c by (simp add: hscan_link)
  next
    case False
    have "filter Q (snd (hEmit grid r ms ml acc)) = filter Q (snd acc)"
      using Suc.prems assms by (intro hEmit_filter_out) auto
    then show ?thesis using False Suc c by (simp add: hscan_break)
  qed
qed

lemma hEmit_run:
  assumes "hRun grid r s n k"
  shows "filter (inHSpan r s n) (snd (hEmit grid r s n acc)) =
         filter (inHSpan r s n) (snd acc) @ hExpected r s n k"
proof -
  have "getTileType (gridAt grid r s) = Some k" "1 \<le> n"
    using assms by (auto simp: hRun_def)
  then show ?thesis
    by (auto simp: hEmit_def hExpected_def inHSpan_def)
qed

lemma hscan_run:
  assumes run: "hRun grid r s n k"
  shows "ms + ml = c \<Longrightarrow> 1 \<le> ml \<Longrightarrow> (ms = s \<and> c \<le> s + n) \<or> (ms < s \<and> c \<le> s) \<Longrightarrow>
         filter (inHSpan r s n) (snd (hscan grid r c ms ml acc)) =
         filter (inHSpan r s n) (snd acc) @ hExpected r s n k"
proof (induction "Suc (length grid) - c" arbitrary: c ms ml acc)
  case 0
  then show ?case using run by (auto simp: hRun_def)
next
  case (Suc x)
  have n: "1 \<le> n" "s + n \<le> length grid" using run by (auto simp: hRun_def)
  have c: "c \<le> length grid" using Suc.hyps(2) by simp
  have "(ms = s \<and> c < s + n) \<or> (ms = s \<and> c = s + n) \<or> (ms < s \<and> c < s) \<or> (ms < s \<and> c = s)"
    using Suc.prems(3) by (simp add: le_less) blast
  then consider (inrun) "ms = s" "c < s + n" | (endrun) "ms = s" "c = s + n"
    | (before) "ms < s" "c < s" | (start) "ms < s" "c = s"
    by blast
  then show ?case
  proof cases
    case inrun
    then have "hlink grid r c" using run Suc.prems by (intro hRun_link[OF run]) auto
    then show ?thesis using Suc inrun c by (simp add: hscan_link)
  next
    case endrun
    then have nl: "\<not> hlink grid r c" using hRun_end[OF run] by simp
    have ml: "ml = n" using endrun Suc.prems by simp
    have "filter (inHSpan r s n) (snd (hscan grid r (c + 1) c 1 (hEmit grid r ms ml acc))) =
          filter (inHSpan r s n) (snd (hEmit grid r ms ml acc))"
      by (rule hscan_filter_out[where lo = "s + n"]) (auto simp: inHSpan_def endrun)
    then show ?thesis using nl c endrun ml hEmit_run[OF run] by (simp add: hscan_break)
  next
    case before
    show ?thesis
    proof (cases "hlink grid r c")
      case True
      then show ?thesis using Suc before c by (simp add: hscan_link)
    next
      case False
      have e: "filter (inHSpan r s n) (snd (hEmit grid r ms ml acc)) = filter (inHSpan r s n) (snd acc)"
        using Suc.prems before by (intro hEmit_filter_out) (auto simp: inHSpan_def)
      have "filter (inHSpan r s n) (snd (hscan grid r (c + 1) c 1 (hEmit grid r ms ml acc))) =
            filter (inHSpan r s n) (snd (hEmit grid r ms ml acc)) @ hExpected r s n k"
        using Suc.hyps(2) before by (intro Suc.hyps(1)) auto
      then show ?thesis using False c e by (simp add: hscan_break)
    qed
  next
    case start
    then have nl: "\<not> hlink grid r c" using hRun_start[OF run] by simp
    have e: "filter (inHSpan r s n) (snd (hEmit grid r ms ml acc)) = filter (inHSpan r s n) (snd acc)"
      using Suc.prems start by (intro hEmit_filter_out) (auto simp: inHSpan_def)
    have "filter (inHSpan r s n) (snd (hscan grid r (c + 1) c 1 (hEmit grid r ms ml acc))) =
          filter (inHSpan r s n) (snd (hEmit grid r ms ml acc)) @ hExpected r s n k"
      using Suc.hyps(2) start n by (intro Suc.hyps(1)) auto
    then show ?thesis using nl c e by (simp add: hscan_break)
  qed
qed

lemma fold_hscan_other_rows:
  "r \<notin> set rs \<Longrightarrow>
   filter (inHSpan r s n) (snd (fold (\<lambda>r'. hscan grid r' 1 0 1) rs acc)) =
   filter (inHSpan r s n) (snd acc)"
proof (induction rs arbitrary: acc)
  case Nil
  then show ?case by simp
next
  case (Cons a rs)
  have "filter (inHSpan r s n) (snd (hscan grid a 1 0 1 acc)) = filter (inHSpan r s n) (snd acc)"
    using Cons.prems by (intro hscan_filter_out[where lo = 0]) (auto simp: inHSpan_def)
  then show ?case using Cons by simp
qed

lemma horizontalPass_run:
  assumes run: "hRun grid r s n k"
  shows "filter (inHSpan r s n) (snd (horizontalPass grid)) = hExpected r s n k"
proof -
  have r: "r < length grid" and n: "1 \<le> n" using run by (auto simp: hRun_def)
  define d where "d = length grid - Suc r"
  have d: "length grid = r + Suc d"
    using r by (simp add: d_def)
  have "[0..<r + Suc d] = [0..<r] @ [r..<r + Suc d]"
    by (rule upt_add_eq_append) simp
  moreover have "[r..<r + Suc d] = r # [Suc r..<r + Suc d]"
    by (rule upt_conv_Cons) simp
  ultimately have split: "[0..<length grid] = [0..<r] @ r # [Suc r..<length grid]"
    unfolding d by simp
  have row: "filter (inHSpan r s n) (snd (hscan grid r 1 0 1 acc)) =
             filter (inHSpan r s n) (snd acc) @ hExpected r s n k" for acc
    using n by (intro hscan_run[OF run]) auto
  let ?f = "\<lambda>r'. hscan grid r' 1 0 1"
  let ?X = "fold ?f [0..<r] ([], [])"
  have "horizontalPass grid = fold ?f [Suc r..<length grid] (?f r ?X)"
    unfolding horizontalPass_def by (subst split) simp
  then have "filter (inHSpan r s n) (snd (horizontalPass grid)) =
             filter (inHSpan r s n) (snd (?f r ?X))"
    using fold_hscan_other_rows[of r "[Suc r..<length grid]" s n grid "?f r ?X"] by simp
  also have "\<dots> = filter (inHSpan r s n) (snd ?X) @ hExpected r s n k"
    by (rule row)
  also have "filter (inHSpan r s n) (snd ?X) = []"
    using fold_hscan_other_rows[of r "[0..<r]" s n grid "([], [])"] by simp
  finally show ?thesis by simp
qed

definition vRun :: "grid \<Rightarrow> nat \<Rightarrow> nat \<Rightarrow> nat \<Rightarrow> kind \<Rightarrow> bool" where
  "vRun grid c s n k =
     (c < length grid \<and> 1 \<le> n \<and> s + n \<le> length grid \<and>
      (\<forall>r \<in> set [s..<s + n]. getTileType (gridAt grid r c) = Some k) \<and>
      (s = 0 \<or> getTileType (gridAt grid (s - 1) c) \<noteq> Some k) \<and>
      (s + n = length grid \<or> getTileType (gridAt grid (s + n) c) \<noteq> Some k))"

definition inVSpan :: "nat \<Rightarrow> nat \<Rightarrow> nat \<Rightarrow> spawn \<Rightarrow> bool" where
  "inVSpan c s n q = (col q = c \<and> s \<le> row q \<and> row q < s + n)"

definition vExpected :: "nat \<Rightarrow> nat \<Rightarrow> nat \<Rightarrow> kind \<Rightarrow> spawn list" where
  "vExpected c s n k =
     (if n = 4 then [\<lparr>row = s + n div 2, col = c, stype = StripedV, candyType = Some k\<rparr>]
      else if 5 \<le> n then [\<lparr>row = s + n div 2, col = c, stype = Wrapped, candyType = Some k\<rparr>]
      else [])"

lemma vRun_cell:
  "vRun grid c s n k \<Longrightarrow> s \<le> r \<Longrightarrow> r < s + n \<Longrightarrow> getTileType (gridAt grid r c) = Some k"
  by (simp add: vRun_def)

lemma vRun_link:
  assumes "vRun grid c s n k" "s < r" "r < s + n"
  shows "vlink grid c r"
proof -
  have a: "getTileType (gridAt grid r c) = Some k"
    using assms by (intro vRun_cell[OF assms(1)]) auto
  have b: "getTileType (gridAt grid (r - 1) c) = Some k"
    using assms by (intro vRun_cell[OF assms(1)]) auto
  have "r < length grid" using assms by (simp add: vRun_def)
  then show ?thesis using a b by (simp add: vlink_def getTileType_truthy)
qed

lemma vRun_start:
  assumes h: "vRun grid c s n k" and s: "0 < s"
  shows "\<not> vlink grid c s"
proof -
  have "1 \<le> n" using h by (simp add: vRun_def)
  then have a: "getTileType (gridAt grid s c) = Some k"
    by (intro vRun_cell[OF h]) auto
  have "s = 0 \<or> getTileType (gridAt grid (s - 1) c) \<noteq> Some k"
    using h by (simp add: vRun_def)
  then have "getTileType (gridAt grid (s - 1) c) \<noteq> Some k" using s by simp
  then show ?thesis using a by (simp add: vlink_def)
qed

lemma vRun_end: "vRun grid c s n k \<Longrightarrow> \<not> vlink grid c (s + n)"
proof -
  assume h: "vRun grid c s n k"
  then have "1 \<le> n" by (simp add: vRun_def)
  then have "getTileType (gridAt grid (s + n - 1) c) = Some k"
    by (intro vRun_cell[OF h]) auto
  moreover have "s + n = length grid \<or> getTileType (gridAt grid (s + n) c) \<noteq> Some k"
    using h by (simp add: vRun_def)
  ultimately show ?thesis using \<open>1 \<le> n\<close> by (cases "s + n = length grid") (simp_all add: vlink_def)
qed

lemma vEmit_filter_out:
  "1 \<le> ml \<Longrightarrow> (\<And>q. col q = c \<Longrightarrow> ms \<le> row q \<Longrightarrow> row q < ms + ml \<Longrightarrow> \<not> Q q) \<Longrightarrow>
   filter Q (snd (vEmit grid c ms ml acc)) = filter Q (snd acc)"
  by (auto simp: vEmit_def)

lemma vscan_filter_out:
  assumes "\<And>q. col q = c \<Longrightarrow> lo \<le> row q \<Longrightarrow> \<not> Q q"
  shows "lo \<le> ms \<Longrightarrow> lo \<le> r \<Longrightarrow> 1 \<le> ml \<Longrightarrow>
         filter Q (snd (vscan grid c r ms ml acc)) = filter Q (snd acc)"
proof (induction "Suc (length grid) - r" arbitrary: r ms ml acc)
  case 0
  then show ?case by (simp add: vscan_stop)
next
  case (Suc x)
  then have r: "r \<le> length grid" by simp
  show ?case
  proof (cases "vlink grid c r")
    case True
    then show ?thesis using Suc r by (simp add: vscan_link)
  next
    case False
    have "filter Q (snd (vEmit grid c ms ml acc)) = filter Q (snd acc)"
      using Suc.prems assms by (intro vEmit_filter_out) auto
    then show ?thesis using False Suc r by (simp add: vscan_break)
  qed
qed

lemma vEmit_run:
  assumes "vRun grid c s n k"
  shows "filter (inVSpan c s n) (snd (vEmit grid c s n acc)) =
         filter (inVSpan c s n) (snd acc) @ vExpected c s n k"
proof -
  have "getTileType (gridAt grid s c) = Some k" "1 \<le> n"
    using assms by (auto simp: vRun_def)
  then show ?thesis
    by (auto simp: vEmit_def vExpected_def inVSpan_def)
qed

lemma vscan_run:
  assumes run: "vRun grid c s n k"
  shows "ms + ml = r \<Longrightarrow> 1 \<le> ml \<Longrightarrow> (ms = s \<and> r \<le> s + n) \<or> (ms < s \<and> r \<le> s) \<Longrightarrow>
         filter (inVSpan c s n) (snd (vscan grid c r ms ml acc)) =
         filter (inVSpan c s n) (snd acc) @ vExpected c s n k"
proof (induction "Suc (length grid) - r" arbitrary: r ms ml acc)
  case 0
  then show ?case using run by (auto simp: vRun_def)
next
  case (Suc x)
  have n: "1 \<le> n" "s + n \<le> length grid" using run by (auto simp: vRun_def)
  have r: "r \<le> length grid" using Suc.hyps(2) by simp
  have "(ms = s \<and> r < s + n) \<or> (ms = s \<and> r = s + n) \<or> (ms < s \<and> r < s) \<or> (ms < s \<and> r = s)"
    using Suc.prems(3) by (simp add: le_less) blast
  then consider (inrun) "ms = s" "r < s + n" | (endrun) "ms = s" "r = s + n"
    | (before) "ms < s" "r < s" | (start) "ms < s" "r = s"
    by blast
  then show ?case
  proof cases
    case inrun
    then have "vlink grid c r" using run Suc.prems by (intro vRun_link[OF run]) auto
    then show ?thesis using Suc inrun r by (simp add: vscan_link)
  next
    case endrun
    then have nl: "\<not> vlink grid c r" using vRun_end[OF run] by simp
    have ml: "ml = n" using endrun Suc.prems by simp
    have "filter (inVSpan c s n) (snd (vscan grid c (r + 1) r 1 (vEmit grid c ms ml acc))) =
          filter (inVSpan c s n) (snd (vEmit grid c ms ml acc))"
      by (rule vscan_filter_out[where lo = "s + n"]) (auto simp: inVSpan_def endrun)
    then show ?thesis using nl r endrun ml vEmit_run[OF run] by (simp add: vscan_break)
  next
    case before
    show ?thesis
    proof (cases "vlink grid c r")
      case True
      then show ?thesis using Suc before r by (simp add: vscan_link)
    next
      case False
      have e: "filter (inVSpan c s n) (snd (vEmit grid c ms ml acc)) = filter (inVSpan c s n) (snd acc)"
        using Suc.prems before by (intro vEmit_filter_out) (auto simp: inVSpan_def)
      have "filter (inVSpan c s n) (snd (vscan grid c (r + 1) r 1 (vEmit grid c ms ml acc))) =
            filter (inVSpan c s n) (snd (vEmit grid c ms ml acc)) @ vExpected c s n k"
        using Suc.hyps(2) before by (intro Suc.hyps(1)) auto
      then show ?thesis using False r e by (simp add: vscan_break)
    qed
  next
    case start
    then have nl: "\<not> vlink grid c r" using vRun_start[OF run] by simp
    have e: "filter (inVSpan c s n) (snd (vEmit grid c ms ml acc)) = filter (inVSpan c s n) (snd acc)"
      using Suc.prems start by (intro vEmit_filter_out) (auto simp: inVSpan_def)
    have "filter (inVSpan c s n) (snd (vscan grid c (r + 1) r 1 (vEmit grid c ms ml acc))) =
          filter (inVSpan c s n) (snd (vEmit grid c ms ml acc)) @ vExpected c s n k"
      using Suc.hyps(2) start n by (intro Suc.hyps(1)) auto
    then show ?thesis using nl r e by (simp add: vscan_break)
  qed
qed

lemma fold_vscan_other_cols:
  "c \<notin> set cs \<Longrightarrow>
   filter (inVSpan c s n) (snd (fold (\<lambda>c'. vscan grid c' 1 0 1) cs acc)) =
   filter (inVSpan c s n) (snd acc)"
proof (induction cs arbitrary: acc)
  case Nil
  then show ?case by simp
next
  case (Cons a cs)
  have "filter (inVSpan c s n) (snd (vscan grid a 1 0 1 acc)) = filter (inVSpan c s n) (snd acc)"
    using Cons.prems by (intro vscan_filter_out[where lo = 0]) (auto simp: inVSpan_def)
  then show ?case using Cons by simp
qed

lemma vEmit_snd: "snd (vEmit grid c ms ml acc) = snd acc @ snd (vEmit grid c ms ml ([], []))"
  by (simp add: vEmit_def)

lemma vscan_snd:
  "snd (vscan grid c r ms ml acc) = snd acc @ snd (vscan grid c r ms ml ([], []))"
proof (induction "Suc (length grid) - r" arbitrary: r ms ml acc)
  case 0
  then show ?case by (simp add: vscan_stop)
next
  case (Suc x)
  then have r: "r \<le> length grid" by simp
  show ?case
  proof (cases "vlink grid c r")
    case True
    have "snd (vscan grid c (r + 1) ms (ml + 1) acc) =
          snd acc @ snd (vscan grid c (r + 1) ms (ml + 1) ([], []))"
      using Suc.hyps(2) by (intro Suc.hyps(1)) simp
    then show ?thesis using True r by (simp add: vscan_link)
  next
    case False
    have a: "snd (vscan grid c (r + 1) r 1 (vEmit grid c ms ml acc)) =
          snd (vEmit grid c ms ml acc) @ snd (vscan grid c (r + 1) r 1 ([], []))"
      using Suc.hyps(2) by (intro Suc.hyps(1)) simp
    have b: "snd (vscan grid c (r + 1) r 1 (vEmit grid c ms ml ([], []))) =
          snd (vEmit grid c ms ml ([], [])) @ snd (vscan grid c (r + 1) r 1 ([], []))"
      using Suc.hyps(2) by (intro Suc.hyps(1)) simp
    show ?thesis
      using False r a b vEmit_snd[of grid c ms ml acc] by (simp add: vscan_break)
  qed
qed

lemma fold_vscan_snd:
  "snd (fold (\<lambda>c. vscan grid c 1 0 1) cs acc) =
   snd acc @ snd (fold (\<lambda>c. vscan grid c 1 0 1) cs ([], []))"
proof (induction cs arbitrary: acc)
  case Nil
  then show ?case by simp
next
  case (Cons c cs)
  have "snd (fold (\<lambda>c. vscan grid c 1 0 1) cs (vscan grid c 1 0 1 acc)) =
        snd (vscan grid c 1 0 1 acc) @ snd (fold (\<lambda>c. vscan grid c 1 0 1) cs ([], []))"
    by (rule Cons.IH)
  moreover have "snd (fold (\<lambda>c. vscan grid c 1 0 1) cs (vscan grid c 1 0 1 ([], []))) =
        snd (vscan grid c 1 0 1 ([], [])) @ snd (fold (\<lambda>c. vscan grid c 1 0 1) cs ([], []))"
    by (rule Cons.IH)
  ultimately show ?case using vscan_snd[of grid c 1 0 1 acc] by simp
qed

definition horizontalSpawns :: "grid \<Rightarrow> spawn list" where
  "horizontalSpawns grid = snd (horizontalPass grid)"

definition verticalSpawns :: "grid \<Rightarrow> spawn list" where
  "verticalSpawns grid = snd (verticalPass grid ([], []))"

lemma specials_split:
  "specials (findAllMatches grid) =
   horizontalSpawns grid @ verticalSpawns grid @
   findLTShapes grid (map key (matches (findAllMatches grid)))"
proof -
  have "snd (verticalPass grid (horizontalPass grid)) = horizontalSpawns grid @ verticalSpawns grid"
    unfolding verticalPass_def horizontalSpawns_def verticalSpawns_def by (rule fold_vscan_snd)
  moreover have "specials (findAllMatches grid) =
      snd (verticalPass grid (horizontalPass grid)) @
      findLTShapes grid (fst (verticalPass grid (horizontalPass grid)))"
    by (simp add: findAllMatches_def split: prod.splits)
  ultimately show ?thesis
    by (simp add: matches_keys)
qed

lemma verticalPass_run:
  assumes run: "vRun grid c s n k"
  shows "filter (inVSpan c s n) (verticalSpawns grid) = vExpected c s n k"
proof -
  have c: "c < length grid" and n: "1 \<le> n" using run by (auto simp: vRun_def)
  define d where "d = length grid - Suc c"
  have d: "length grid = c + Suc d"
    using c by (simp add: d_def)
  have "[0..<c + Suc d] = [0..<c] @ [c..<c + Suc d]"
    by (rule upt_add_eq_append) simp
  moreover have "[c..<c + Suc d] = c # [Suc c..<c + Suc d]"
    by (rule upt_conv_Cons) simp
  ultimately have split: "[0..<length grid] = [0..<c] @ c # [Suc c..<length grid]"
    unfolding d by simp
  have col: "filter (inVSpan c s n) (snd (vscan grid c 1 0 1 acc)) =
             filter (inVSpan c s n) (snd acc) @ vExpected c s n k" for acc
    using n by (intro vscan_run[OF run]) auto
  let ?f = "\<lambda>c'. vscan grid c' 1 0 1"
  let ?X = "fold ?f [0..<c] ([], [])"
  have "verticalPass grid ([], []) = fold ?f [Suc c..<length grid] (?f c ?X)"
    unfolding verticalPass_def by (subst split) simp
  then have "filter (inVSpan c s n) (verticalSpawns grid) =
             filter (inVSpan c s n) (snd (?f c ?X))"
    using fold_vscan_other_cols[of c "[Suc c..<length grid]" s n grid "?f c ?X"]
    by (simp add: verticalSpawns_def)
  also have "\<dots> = filter (inVSpan c s n) (snd ?X) @ vExpected c s n k"
    by (rule col)
  also have "filter (inVSpan c s n) (snd ?X) = []"
    using fold_vscan_other_cols[of c "[0..<c]" s n grid "([], [])"] by simp
  finally show ?thesis by simp
qed

text \<open>
  Claim C1. The requests \<^verbatim>\<open>findAllMatches\<close> returns are those of the row pass, then those
  of the column pass, then those of the L/T detection. For a maximal horizontal run the row
  pass places on its cells: exactly one request when its length is 4, a \<^verbatim>\<open>striped-h\<close> one
  at the start column plus 2 with the kind of the run; exactly one when its length is 5, a
  \<^verbatim>\<open>wrapped\<close> one at the start column plus 2; none when its length is 3. The column pass
  does the same for a maximal vertical run, the request of length 4 being \<^verbatim>\<open>striped-v\<close>.
\<close>

theorem run_length_spawn_rule:
  "specials (findAllMatches grid) =
     horizontalSpawns grid @ verticalSpawns grid @
     findLTShapes grid (map key (matches (findAllMatches grid)))
  \<and> (hRun grid r s 4 k \<longrightarrow> filter (inHSpan r s 4) (horizontalSpawns grid) =
        [\<lparr>row = r, col = s + 2, stype = StripedH, candyType = Some k\<rparr>])
  \<and> (hRun grid r s 5 k \<longrightarrow> filter (inHSpan r s 5) (horizontalSpawns grid) =
        [\<lparr>row = r, col = s + 2, stype = Wrapped, candyType = Some k\<rparr>])
  \<and> (hRun grid r s 3 k \<longrightarrow> filter (inHSpan r s 3) (horizontalSpawns grid) = [])
  \<and> (vRun grid c s 4 k \<longrightarrow> filter (inVSpan c s 4) (verticalSpawns grid) =
        [\<lparr>row = s + 2, col = c, stype = StripedV, candyType = Some k\<rparr>])
  \<and> (vRun grid c s 5 k \<longrightarrow> filter (inVSpan c s 5) (verticalSpawns grid) =
        [\<lparr>row = s + 2, col = c, stype = Wrapped, candyType = Some k\<rparr>])
  \<and> (vRun grid c s 3 k \<longrightarrow> filter (inVSpan c s 3) (verticalSpawns grid) = [])"
  using specials_split[of grid] horizontalPass_run[of grid r s _ k]
    verticalPass_run[of grid c s _ k]
  by (simp add: horizontalSpawns_def hExpected_def vExpected_def)

theorem run_length_spawn_rule_witness:
  "hRun board5 0 0 4 Heart
   \<and> filter (inHSpan 0 0 4) (horizontalSpawns board5) =
       [\<lparr>row = 0, col = 2, stype = StripedH, candyType = Some Heart\<rparr>]
   \<and> hRun board5 2 0 3 Diamond
   \<and> filter (inHSpan 2 0 3) (horizontalSpawns board5) = []
   \<and> vRun board5 4 0 5 Star
   \<and> filter (inVSpan 4 0 5) (verticalSpawns board5) =
       [\<lparr>row = 2, col = 4, stype = Wrapped, candyType = Some Star\<rparr>]"
proof -
  have h4: "hRun board5 0 0 4 Heart" by code_simp
  have h3: "hRun board5 2 0 3 Diamond" by code_simp
  have v5: "vRun board5 4 0 5 Star" by code_simp
  show ?thesis
    using h4 h3 v5 run_length_spawn_rule[of board5 0 0 Heart 4]
      run_length_spawn_rule[of board5 2 0 Diamond 4] run_length_spawn_rule[of board5 0 0 Star 4]
    by simp
qed

section \<open>A generated board has no match\<close>

text \<open>
  \<open>acceptedKindsPassed n g\<close>: every cell of the \<open>n \<times> n\<close> board holds a tile with a kind, and
  that kind passes the backward check \<^verbatim>\<open>wouldCreateInitialMatch\<close> at its position. The check
  of a cell reads the two cells to its left and the two above it only; \<^verbatim>\<open>generate\<close> has
  written them before and writes no cell twice, so on the finished board the check gives
  what it gave when the kind was accepted.
\<close>


definition acceptedKindsPassed :: "nat \<Rightarrow> grid \<Rightarrow> bool" where
  "acceptedKindsPassed n g =
     (\<forall>r \<in> set [0..<n]. \<forall>c \<in> set [0..<n].
        (case getTileType (gridAt g r c) of
           None \<Rightarrow> False
         | Some k \<Rightarrow> \<not> wouldCreateInitialMatch g r c k))"

lemma accepted_cell:
  "acceptedKindsPassed n g \<Longrightarrow> r < n \<Longrightarrow> c < n \<Longrightarrow>
   \<exists>k. getTileType (gridAt g r c) = Some k \<and> \<not> wouldCreateInitialMatch g r c k"
proof -
  assume a: "acceptedKindsPassed n g" "r < n" "c < n"
  then have "case getTileType (gridAt g r c) of
               None \<Rightarrow> False | Some k \<Rightarrow> \<not> wouldCreateInitialMatch g r c k"
    by (simp add: acceptedKindsPassed_def)
  then show ?thesis by (cases "getTileType (gridAt g r c)") simp_all
qed

lemma hlink_types:
  "hlink g r c \<Longrightarrow> getTileType (gridAt g r (c - 1)) = getTileType (gridAt g r c)"
  by (simp add: hlink_def)

lemma no_three_linked_h:
  assumes ok: "acceptedKindsPassed (length g) g" and r: "r < length g"
    and l1: "hlink g r (c - 1)" and l2: "hlink g r c" and c: "2 \<le> c"
  shows False
proof -
  have cl: "c < length g" using l2 by (simp add: hlink_def)
  obtain k where k: "getTileType (gridAt g r c) = Some k" "\<not> wouldCreateInitialMatch g r c k"
    using accepted_cell[OF ok r cl] by blast
  have a: "getTileType (gridAt g r (c - 1)) = Some k" using hlink_types[OF l2] k by simp
  have "c - 1 - 1 = c - 2" by simp
  then have b: "getTileType (gridAt g r (c - 2)) = Some k" using hlink_types[OF l1] a by simp
  show False using k(2) a b c by (simp add: wouldCreateInitialMatch_def split: if_splits)
qed

lemma hscan_no_runs:
  assumes ok: "acceptedKindsPassed (length g) g" and r: "r < length g"
  shows "ms + ml = c \<Longrightarrow> 1 \<le> c \<Longrightarrow> ml = 1 \<or> (ml = 2 \<and> 2 \<le> c \<and> hlink g r (c - 1)) \<Longrightarrow>
         hscan g r c ms ml acc = acc"
proof (induction "Suc (length g) - c" arbitrary: c ms ml acc)
  case 0
  then show ?case by (simp add: hscan_stop)
next
  case (Suc x)
  then have c: "c \<le> length g" by simp
  have e: "hEmit g r ms ml acc = acc" using Suc.prems(3) by (auto simp: hEmit_def)
  show ?case
  proof (cases "hlink g r c")
    case True
    have ml: "ml = 1"
    proof (rule ccontr)
      assume "ml \<noteq> 1"
      then have "2 \<le> c" "hlink g r (c - 1)" using Suc.prems(3) by auto
      then show False using no_three_linked_h[OF ok r _ True] by blast
    qed
    have "hscan g r (c + 1) ms (ml + 1) acc = acc"
      using Suc.hyps(2) Suc.prems ml True by (intro Suc.hyps(1)) auto
    then show ?thesis using True c by (simp add: hscan_link)
  next
    case False
    have "hscan g r (c + 1) c 1 acc = acc"
      using Suc.hyps(2) Suc.prems by (intro Suc.hyps(1)) auto
    then show ?thesis using False c e by (simp add: hscan_break)
  qed
qed

lemma horizontalPass_no_runs:
  assumes ok: "acceptedKindsPassed (length g) g"
  shows "horizontalPass g = ([], [])"
proof -
  have "set rs \<subseteq> {0..<length g} \<Longrightarrow> fold (\<lambda>r. hscan g r 1 0 1) rs acc = acc" for rs acc
  proof (induction rs arbitrary: acc)
    case Nil
    then show ?case by simp
  next
    case (Cons a rs)
    have "hscan g a 1 0 1 acc = acc"
      using Cons.prems by (intro hscan_no_runs[OF ok]) auto
    then show ?case using Cons by simp
  qed
  then show ?thesis unfolding horizontalPass_def by simp
qed

lemma vlink_types:
  "vlink g c r \<Longrightarrow> getTileType (gridAt g (r - 1) c) = getTileType (gridAt g r c)"
  by (simp add: vlink_def)

lemma no_three_linked_v:
  assumes ok: "acceptedKindsPassed (length g) g" and c: "c < length g"
    and l1: "vlink g c (r - 1)" and l2: "vlink g c r" and r: "2 \<le> r"
  shows False
proof -
  have rl: "r < length g" using l2 by (simp add: vlink_def)
  obtain k where k: "getTileType (gridAt g r c) = Some k" "\<not> wouldCreateInitialMatch g r c k"
    using accepted_cell[OF ok rl c] by blast
  have a: "getTileType (gridAt g (r - 1) c) = Some k" using vlink_types[OF l2] k by simp
  have "r - 1 - 1 = r - 2" by simp
  then have b: "getTileType (gridAt g (r - 2) c) = Some k" using vlink_types[OF l1] a by simp
  show False using k(2) a b r by (simp add: wouldCreateInitialMatch_def split: if_splits)
qed

lemma vscan_no_runs:
  assumes ok: "acceptedKindsPassed (length g) g" and c: "c < length g"
  shows "ms + ml = r \<Longrightarrow> 1 \<le> r \<Longrightarrow> ml = 1 \<or> (ml = 2 \<and> 2 \<le> r \<and> vlink g c (r - 1)) \<Longrightarrow>
         vscan g c r ms ml acc = acc"
proof (induction "Suc (length g) - r" arbitrary: r ms ml acc)
  case 0
  then show ?case by (simp add: vscan_stop)
next
  case (Suc x)
  then have r: "r \<le> length g" by simp
  have e: "vEmit g c ms ml acc = acc" using Suc.prems(3) by (auto simp: vEmit_def)
  show ?case
  proof (cases "vlink g c r")
    case True
    have ml: "ml = 1"
    proof (rule ccontr)
      assume "ml \<noteq> 1"
      then have "2 \<le> r" "vlink g c (r - 1)" using Suc.prems(3) by auto
      then show False using no_three_linked_v[OF ok c _ True] by blast
    qed
    have "vscan g c (r + 1) ms (ml + 1) acc = acc"
      using Suc.hyps(2) Suc.prems ml True by (intro Suc.hyps(1)) auto
    then show ?thesis using True r by (simp add: vscan_link)
  next
    case False
    have "vscan g c (r + 1) r 1 acc = acc"
      using Suc.hyps(2) Suc.prems by (intro Suc.hyps(1)) auto
    then show ?thesis using False r e by (simp add: vscan_break)
  qed
qed

lemma verticalPass_no_runs:
  assumes ok: "acceptedKindsPassed (length g) g"
  shows "verticalPass g acc = acc"
proof -
  have "set cs \<subseteq> {0..<length g} \<Longrightarrow> fold (\<lambda>c. vscan g c 1 0 1) cs acc = acc" for cs acc
  proof (induction cs arbitrary: acc)
    case Nil
    then show ?case by simp
  next
    case (Cons a cs)
    have "vscan g a 1 0 1 acc = acc"
      using Cons.prems by (intro vscan_no_runs[OF ok]) auto
    then show ?case using Cons by simp
  qed
  then show ?thesis unfolding verticalPass_def by simp
qed

lemma no_runs_no_matches:
  "acceptedKindsPassed (length g) g \<Longrightarrow> findAllMatches g = \<lparr>matches = [], specials = []\<rparr>"
  by (simp add: findAllMatches_def horizontalPass_no_runs verticalPass_no_runs findLTShapes_def)

lemma mathRandom_data: "data (snd (mathRandom rnd st)) = data st"
  by (simp add: mathRandom_def)

lemma getRandomType_data: "data (snd (getRandomType rnd st)) = data st"
  by (simp add: getRandomType_def mathRandom_def split: prod.splits)

lemma pickType_data: "data (snd (pickType rnd r c attempts st)) = data st"
proof (induction rnd r c attempts st rule: pickType.induct)
  case (1 rnd r c attempts st)
  obtain t st' where g: "getRandomType rnd st = (t, st')" by (cases "getRandomType rnd st")
  have d: "data st' = data st" using getRandomType_data[of rnd st] g by simp
  show ?case
  proof (cases "attempts + 1 < 50 \<and> wouldCreateInitialMatch (data st') r c t")
    case True
    then show ?thesis using 1[OF g[symmetric]] g d by (subst pickType.simps) simp
  next
    case False
    then show ?thesis using g d by (subst pickType.simps) auto
  qed
qed

lemma length_writeCell: "length (writeCell d r c v) = length d"
  by (simp add: writeCell_def)

lemma generateCell_length:
  "length (data (fst (generateCell rnd mp r c acc))) = length (data (fst acc))"
proof -
  obtain st i where acc: "acc = (st, i)" by (cases acc)
  obtain t st' where p: "pickType rnd r c 0 st = (t, st')" by (cases "pickType rnd r c 0 st")
  have "data st' = data st" using pickType_data[of rnd r c 0 st] p by simp
  then show ?thesis by (simp add: generateCell_def acc p Let_def length_writeCell)
qed

lemma generate_length: "length (data (generate rnd mp st)) = length (data st)"
proof -
  have inner: "length (data (fst (fold (generateCell rnd mp r) cs acc))) = length (data (fst acc))"
    for r cs acc
    by (induction cs arbitrary: acc) (simp_all add: generateCell_length)
  have outer: "length (data (fst (fold (\<lambda>r. fold (generateCell rnd mp r) cs) rs acc))) =
               length (data (fst acc))" for rs cs acc
    by (induction rs arbitrary: acc) (simp_all add: inner)
  show ?thesis by (simp add: generate_def Let_def outer)
qed

text \<open>Random numbers for the examples: the calls of \<^verbatim>\<open>Math.random\<close> return the numbers of
  the list in turn.\<close>

definition draws :: "real list \<Rightarrow> nat \<Rightarrow> rand" where
  "draws xs i = Abs_rand (if i < length xs then xs ! i else 0)"

definition state0 :: state where
  "state0 = \<lparr>data = [], moves = 30, isPlaying = True, isPaused = False, isProcessing = False,
             revealedCount = 0, totalMemories = 1, randomCalls = 0\<rparr>"

definition drawsG :: "real list" where
  "drawsG = [1/10, 1/10, 1/10, 3/10, 1/10, 1/10, 3/10, 1/10, 5/10, 3/10, 7/10]"

definition boardG :: grid where
  "boardG =
    [[plain Heart, plain Heart, plain Diamond],
     [plain Heart,
      Tile \<lparr>type = Some Heart, special = None, isMemory = True, memoryId = MemId 0\<rparr>,
      plain Diamond],
     [plain Rose, plain Diamond, plain Star]]"

lemma generate_example:
  "data (generate (draws drawsG) [\<lparr>row = 1, col = 1, posMemoryId = 0\<rparr>] (gridInit 3 state0)) =
   boardG"
  by (simp add: generate_def gridInit_def state0_def generateCell_def pickType.simps
      getRandomType_def mathRandom_def draws_def drawsG_def Abs_rand_inverse tileTypes_def
      wouldCreateInitialMatch_def gridAt_def getTileType_def writeCell_def setCol_def key_def
      boardG_def plain_def Let_def upt_rec numeral_2_eq_2 numeral_3_eq_3)

text \<open>
  Claim C4. A board that \<^verbatim>\<open>generate\<close> produces after \<^verbatim>\<open>init(n)\<close>, and on which the kind
  accepted for every cell passed the backward check (no cell fell back on its 50th
  candidate unchecked and failing), has no match: \<^verbatim>\<open>findAllMatches\<close> returns an empty match
  set.
\<close>

theorem generated_board_has_no_match:
  assumes "st' = generate rnd memoryPositions (gridInit n st)"
    and "acceptedKindsPassed n (data st')"
  shows "matches (findAllMatches (data st')) = []"
proof -
  have "length (data st') = n"
    using assms(1) by (simp add: generate_length gridInit_def)
  then show ?thesis
    using assms(2) by (simp add: no_runs_no_matches)
qed

theorem generated_board_has_no_match_witness:
  "acceptedKindsPassed 3
     (data (generate (draws drawsG) [\<lparr>row = 1, col = 1, posMemoryId = 0\<rparr>] (gridInit 3 state0)))
   \<and> matches (findAllMatches
       (data (generate (draws drawsG) [\<lparr>row = 1, col = 1, posMemoryId = 0\<rparr>]
          (gridInit 3 state0)))) = []"
proof -
  have a: "acceptedKindsPassed 3
     (data (generate (draws drawsG) [\<lparr>row = 1, col = 1, posMemoryId = 0\<rparr>] (gridInit 3 state0)))"
    unfolding generate_example by code_simp
  show ?thesis
    using a generated_board_has_no_match[OF refl a] by (rule conjI)
qed

section \<open>Chained specials of a combination\<close>

text \<open>
  \<open>specialAt d cp\<close> is the \<^verbatim>\<open>special\<close> of the tile \<^verbatim>\<open>Grid.getTileData\<close> finds at a position,
  \<open>chained p q cp\<close> says that the position is neither of the two swapped ones.
  \<open>chainClosed d p q ps\<close> is closure of a clear set under chained activation: every
  special tile on one of its positions, the two swapped ones apart, has all its own clear
  positions in the set.
\<close>

definition specialAt :: "grid \<Rightarrow> 'a pos_scheme \<Rightarrow> special option" where
  "specialAt d cp = (case getTileData d (row cp) (col cp) of Tile t \<Rightarrow> special t | _ \<Rightarrow> None)"

definition chained :: "pos \<Rightarrow> pos \<Rightarrow> cpos \<Rightarrow> bool" where
  "chained p q cp = (key cp \<noteq> key p \<and> key cp \<noteq> key q)"

definition chainClosed :: "grid \<Rightarrow> pos \<Rightarrow> pos \<Rightarrow> cpos list \<Rightarrow> bool" where
  "chainClosed d p q ps =
     (\<forall>cp \<in> set ps. chained p q cp \<longrightarrow>
        (case specialAt d cp of
           None \<Rightarrow> True
         | Some s \<Rightarrow> set (map key (getSpecialClearPositions d cp s)) \<subseteq> set (map key ps)))"

definition boardC :: grid where
  "boardC =
    [map plain [Heart, Diamond, Rose, Star, Ring, Heart],
     map plain [Rose, Star, Ring, Heart, Diamond, Rose],
     [plain Ring, plain Heart, candy Diamond Wrapped, candy Rose Wrapped, plain Star, plain Ring],
     map plain [Diamond, Rose, Star, Ring, Heart, Diamond],
     [candy Star StripedH, plain Ring, plain Heart, plain Diamond, plain Rose, candy Star StripedV],
     map plain [Heart, Diamond, Rose, Star, Ring, Heart]]"

definition comboC :: combination where
  "comboC = \<lparr>pos1 = \<lparr>row = 2, col = 2\<rparr>, pos2 = \<lparr>row = 2, col = 3\<rparr>, type1 = Wrapped,
             type2 = Wrapped, combinationType = WrappedWrapped\<rparr>"

lemma dedupFrom_distinct:
  "distinct (map key (dedupFrom seen ps)) \<and> key ` set (dedupFrom seen ps) \<inter> set seen = {}"
  by (induction ps arbitrary: seen) (auto simp: setAdd_def dedupFrom_keys)

lemma uniquePositions_distinct: "distinct (map key (uniquePositions d p q comb))"
  by (simp add: uniquePositions_def deduplicatePositions_def dedupFrom_distinct)

lemma uniquePositions_keys:
  "key ` set (uniquePositions d p q comb) =
   key ` set (allPositions d p q (getSpecialCombinationClearPositions d comb))"
  by (simp add: uniquePositions_def deduplicatePositions_keys)

definition chainExtra :: "grid \<Rightarrow> pos \<Rightarrow> pos \<Rightarrow> cpos \<Rightarrow> cpos list" where
  "chainExtra d p q cp =
     (if chained p q cp
      then (case specialAt d cp of None \<Rightarrow> [] | Some s \<Rightarrow> getSpecialClearPositions d cp s)
      else [])"

lemma allPositions_chainExtra:
  "allPositions d p q cps = cps @ concat (map (chainExtra d p q) cps)"
proof -
  have "(if (row cp = row p \<and> col cp = col p) \<or> (row cp = row q \<and> col cp = col q) then []
         else (case getTileData d (row cp) (col cp) of
                 Tile t \<Rightarrow> (case special t of
                               Some s \<Rightarrow> getSpecialClearPositions d cp s
                             | None \<Rightarrow> [])
               | _ \<Rightarrow> [])) = chainExtra d p q cp" for cp
    by (cases "getTileData d (row cp) (col cp)")
       (auto simp: chainExtra_def chained_def specialAt_def key_def split: option.splits)
  then show ?thesis by (simp add: allPositions_def)
qed

lemma allPositions_set:
  "set (allPositions d p q cps) = set cps \<union> (\<Union>cp \<in> set cps. set (chainExtra d p q cp))"
  by (simp add: allPositions_chainExtra)

lemma chainExtra_Some:
  "chained p q cp \<Longrightarrow> specialAt d cp = Some s \<Longrightarrow>
   chainExtra d p q cp = getSpecialClearPositions d cp s"
  by (simp add: chainExtra_def)

lemma chainExtra_mem:
  "x \<in> set (chainExtra d p q cp) \<Longrightarrow>
   \<exists>s. chained p q cp \<and> specialAt d cp = Some s \<and> x \<in> set (getSpecialClearPositions d cp s)"
  by (cases "chained p q cp"; cases "specialAt d cp") (simp_all add: chainExtra_def)


text \<open>
  Claim C5, as stated, fails. On \<open>boardC\<close> the wrapped-wrapped combination at (2,2) and
  (2,3) clears rows and columns 0 to 4; the row-clearing special at (4,0) lies in that block
  and adds row 4, and with it (4,5), which holds a column-clearing special; the column of
  that one is not cleared: the loop of \<^verbatim>\<open>processSpecialCombination\<close> runs over the positions
  of the combination only.
\<close>

theorem combination_clear_set_not_chain_closed:
  "\<not> chainClosed boardC \<lparr>row = 2, col = 2\<rparr> \<lparr>row = 2, col = 3\<rparr>
       (uniquePositions boardC \<lparr>row = 2, col = 2\<rparr> \<lparr>row = 2, col = 3\<rparr> comboC)"
  by code_simp

text \<open>
  Claim C5, amended. The final clear set of \<^verbatim>\<open>processSpecialCombination\<close> holds every position
  of the combination's clear set and, for every position of that set other than the two
  swapped ones that holds a special tile, the clear positions of that special; it holds
  nothing else, and no position twice.
\<close>

theorem combination_chain_one_level:
  "(\<forall>cp \<in> set (getSpecialCombinationClearPositions d comb). chained p q cp \<longrightarrow>
      (case specialAt d cp of
         None \<Rightarrow> True
       | Some s \<Rightarrow> set (map key (getSpecialClearPositions d cp s))
                    \<subseteq> set (map key (uniquePositions d p q comb))))
   \<and> set (map key (getSpecialCombinationClearPositions d comb))
        \<subseteq> set (map key (uniquePositions d p q comb))
   \<and> (\<forall>k \<in> set (map key (uniquePositions d p q comb)).
        k \<in> set (map key (getSpecialCombinationClearPositions d comb)) \<or>
        (\<exists>cp \<in> set (getSpecialCombinationClearPositions d comb). \<exists>s.
            chained p q cp \<and> specialAt d cp = Some s \<and>
            k \<in> set (map key (getSpecialClearPositions d cp s))))
   \<and> distinct (map key (uniquePositions d p q comb))"
proof (intro conjI ballI impI)
  fix cp
  assume cp: "cp \<in> set (getSpecialCombinationClearPositions d comb)" and ch: "chained p q cp"
  show "case specialAt d cp of
          None \<Rightarrow> True
        | Some s \<Rightarrow> set (map key (getSpecialClearPositions d cp s))
                     \<subseteq> set (map key (uniquePositions d p q comb))"
  proof (cases "specialAt d cp")
    case None
    then show ?thesis by simp
  next
    case (Some s)
    have "set (getSpecialClearPositions d cp s)
          \<subseteq> set (allPositions d p q (getSpecialCombinationClearPositions d comb))"
      using cp chainExtra_Some[OF ch Some] by (auto simp: allPositions_set)
    then show ?thesis
      using Some unfolding set_map uniquePositions_keys by auto
  qed
next
  show "set (map key (getSpecialCombinationClearPositions d comb))
        \<subseteq> set (map key (uniquePositions d p q comb))"
    unfolding set_map uniquePositions_keys by (auto simp: allPositions_set)
next
  fix k
  assume "k \<in> set (map key (uniquePositions d p q comb))"
  then obtain x where x: "k = key x"
      "x \<in> set (allPositions d p q (getSpecialCombinationClearPositions d comb))"
    unfolding set_map uniquePositions_keys by auto
  show "k \<in> set (map key (getSpecialCombinationClearPositions d comb)) \<or>
        (\<exists>cp \<in> set (getSpecialCombinationClearPositions d comb). \<exists>s.
            chained p q cp \<and> specialAt d cp = Some s \<and>
            k \<in> set (map key (getSpecialClearPositions d cp s)))"
  proof (cases "x \<in> set (getSpecialCombinationClearPositions d comb)")
    case True
    then show ?thesis using x(1) by auto
  next
    case False
    then obtain cp where cp: "cp \<in> set (getSpecialCombinationClearPositions d comb)"
        "x \<in> set (chainExtra d p q cp)"
      using x(2) by (auto simp: allPositions_set)
    then show ?thesis using chainExtra_mem[OF cp(2)] x(1) by auto
  qed
next
  show "distinct (map key (uniquePositions d p q comb))"
    by (rule uniquePositions_distinct)
qed

theorem combination_chain_one_level_witness:
  "\<lparr>row = 4, col = 0, animation = Some MegaExploding\<rparr>
     \<in> set (getSpecialCombinationClearPositions boardC comboC)
   \<and> specialAt boardC \<lparr>row = 4, col = 0, animation = Some MegaExploding\<rparr> = Some StripedH
   \<and> set (map key (getSpecialClearPositions boardC
         \<lparr>row = 4, col = 0, animation = Some MegaExploding\<rparr> StripedH))
      \<subseteq> set (map key (uniquePositions boardC \<lparr>row = 2, col = 2\<rparr> \<lparr>row = 2, col = 3\<rparr> comboC))"
proof -
  let ?cp = "\<lparr>row = 4, col = 0, animation = Some MegaExploding\<rparr>"
  have m: "?cp \<in> set (getSpecialCombinationClearPositions boardC comboC)"
    by code_simp
  have s: "specialAt boardC ?cp = Some StripedH"
    by code_simp
  have c: "chained \<lparr>row = 2, col = 2\<rparr> \<lparr>row = 2, col = 3\<rparr> ?cp"
    by code_simp
  have "\<forall>cp \<in> set (getSpecialCombinationClearPositions boardC comboC).
          chained \<lparr>row = 2, col = 2\<rparr> \<lparr>row = 2, col = 3\<rparr> cp \<longrightarrow>
          (case specialAt boardC cp of
             None \<Rightarrow> True
           | Some s \<Rightarrow> set (map key (getSpecialClearPositions boardC cp s))
                \<subseteq> set (map key
                    (uniquePositions boardC \<lparr>row = 2, col = 2\<rparr> \<lparr>row = 2, col = 3\<rparr> comboC)))"
    using combination_chain_one_level[of boardC comboC "\<lparr>row = 2, col = 2\<rparr>"
        "\<lparr>row = 2, col = 3\<rparr>"]
    by blast
  then have "case specialAt boardC ?cp of
               None \<Rightarrow> True
             | Some s \<Rightarrow> set (map key (getSpecialClearPositions boardC ?cp s))
                \<subseteq> set (map key
                    (uniquePositions boardC \<lparr>row = 2, col = 2\<rparr> \<lparr>row = 2, col = 3\<rparr> comboC))"
    using m c by blast
  then show ?thesis
    using m s by simp
qed

section \<open>The refill bias\<close>

text \<open>
  The 25 cells that \<^verbatim>\<open>getHelpfulTypeForPosition\<close> may look at are numbered 0 to 24 in the
  order of its two loops: cell \<open>i\<close> lies \<open>rowOffset i\<close> rows and \<open>colOffset i\<close> columns from
  the cell being filled, and \<open>chebyshev i\<close> is its distance. \<open>taggedNear d r c i\<close> says that
  cell \<open>i\<close> is on the board and holds a memory tile, \<open>kindNear d r c i\<close> is the kind found
  there. \<open>helpfulTypeRadiusAscending\<close> follows the words of the specification: the cells
  are searched by ascending distance, row-major among the cells of one distance.
\<close>

definition rowOffset :: "nat \<Rightarrow> int" where "rowOffset i = int (i div 5) - 2"
definition colOffset :: "nat \<Rightarrow> int" where "colOffset i = int (i mod 5) - 2"

definition taggedAt :: "grid \<Rightarrow> int \<Rightarrow> int \<Rightarrow> bool" where
  "taggedAt d nr nc =
     (nr \<ge> 0 \<and> nr < int (length d) \<and> nc \<ge> 0 \<and> nc < int (length d) \<and>
      (case gridAt d (nat nr) (nat nc) of Tile t \<Rightarrow> isMemory t | _ \<Rightarrow> False))"

definition taggedNear :: "grid \<Rightarrow> nat \<Rightarrow> nat \<Rightarrow> nat \<Rightarrow> bool" where
  "taggedNear d r c i = taggedAt d (int r + rowOffset i) (int c + colOffset i)"

definition kindNear :: "grid \<Rightarrow> nat \<Rightarrow> nat \<Rightarrow> nat \<Rightarrow> kind option" where
  "kindNear d r c i = getTileType (gridAt d (nat (int r + rowOffset i)) (nat (int c + colOffset i)))"

definition chebyshev :: "nat \<Rightarrow> int" where
  "chebyshev i = max \<bar>rowOffset i\<bar> \<bar>colOffset i\<bar>"

definition radiusAscendingOrder :: "nat list" where
  "radiusAscendingOrder =
     filter (\<lambda>i. chebyshev i = 0) [0..<25] @ filter (\<lambda>i. chebyshev i = 1) [0..<25] @
     filter (\<lambda>i. chebyshev i = 2) [0..<25]"

definition helpfulTypeRadiusAscending :: "grid \<Rightarrow> nat \<Rightarrow> nat \<Rightarrow> kind option" where
  "helpfulTypeRadiusAscending d r c =
     (case find (taggedNear d r c) radiusAscendingOrder of
        None \<Rightarrow> None
      | Some i \<Rightarrow> kindNear d r c i)"

definition boardM :: grid where
  "boardM =
    [[Tile \<lparr>type = Some Heart, special = None, isMemory = True, memoryId = MemId 0\<rparr>,
      plain Diamond, plain Rose, plain Star, plain Ring],
     map plain [Rose, Star, Ring, Heart, Diamond],
     [plain Ring, plain Heart, Null,
      Tile \<lparr>type = Some Star, special = None, isMemory = True, memoryId = MemId 1\<rparr>, plain Rose],
     map plain [Diamond, Rose, Star, Ring, Heart],
     map plain [Star, Ring, Heart, Diamond, Rose]]"

lemma firstMemoryType_Cons:
  "firstMemoryType d ((nr, nc) # rest) =
     (if taggedAt d nr nc then getTileType (gridAt d (nat nr) (nat nc))
      else firstMemoryType d rest)"
  by (cases "gridAt d (nat nr) (nat nc)") (auto simp: taggedAt_def getTileType_def)

lemma firstMemoryType_find:
  "firstMemoryType d (map f xs) =
     (case find (\<lambda>i. taggedAt d (fst (f i)) (snd (f i))) xs of
        None \<Rightarrow> None
      | Some i \<Rightarrow> getTileType (gridAt d (nat (fst (f i))) (nat (snd (f i)))))"
proof (induction xs)
  case Nil
  then show ?case by simp
next
  case (Cons x xs)
  obtain nr nc where f: "f x = (nr, nc)" by (cases "f x")
  show ?case using Cons by (simp add: f firstMemoryType_Cons del: firstMemoryType.simps)
qed

lemma find_append_upt:
  "find P (xs @ [x]) = (case find P xs of None \<Rightarrow> (if P x then Some x else None) | Some y \<Rightarrow> Some y)"
  by (induction xs) auto

lemma upt25: "[0..<25] = [0,1,2,3,4,5,6,7,8,9,10,11,12,13,14,15,16,17,18,19,20,21,22,23,24]"
  by (simp add: upt_rec)

lemma candidates_index:
  "concat (map (\<lambda>dr. map (\<lambda>dc. (int r + dr, int c + dc)) [-2..2]) [-2..2]) =
   map (\<lambda>i. (int r + rowOffset i, int c + colOffset i)) [0..<25]"
  unfolding upto_minus2_2 upt25 by (simp add: rowOffset_def colOffset_def)

lemma getHelpful_find:
  "getHelpfulTypeForPosition d r c =
     (case find (taggedNear d r c) [0..<25] of None \<Rightarrow> None | Some i \<Rightarrow> kindNear d r c i)"
  unfolding getHelpfulTypeForPosition_def candidates_index firstMemoryType_find
  by (simp add: taggedNear_def[abs_def] kindNear_def cong: option.case_cong)

lemma find_first:
  "i < n \<Longrightarrow> P i \<Longrightarrow> (\<forall>j<i. \<not> P j) \<Longrightarrow> find P [0..<n] = Some i"
proof (induction n)
  case 0
  then show ?case by simp
next
  case (Suc n)
  show ?case
  proof (cases "i < n")
    case True
    then have "find P [0..<n] = Some i" using Suc by simp
    then show ?thesis by (simp add: find_append_upt)
  next
    case False
    then have i: "i = n" using Suc.prems by simp
    have "find P [0..<n] = None" using Suc.prems(3) i by (simp add: find_None_iff)
    then show ?thesis using Suc.prems(2) i by (simp add: find_append_upt)
  qed
qed

lemma getHelpful_first:
  "i < 25 \<Longrightarrow> taggedNear d r c i \<Longrightarrow> (\<forall>j<i. \<not> taggedNear d r c j) \<Longrightarrow>
   getHelpfulTypeForPosition d r c = kindNear d r c i"
  using find_first[of i 25 "taggedNear d r c"] by (simp add: getHelpful_find)

lemma getHelpful_none:
  "(\<forall>i<25. \<not> taggedNear d r c i) \<Longrightarrow> getHelpfulTypeForPosition d r c = None"
proof -
  assume "\<forall>i<25. \<not> taggedNear d r c i"
  then have "find (taggedNear d r c) [0..<25] = None" by (simp add: find_None_iff)
  then show ?thesis by (simp add: getHelpful_find)
qed

lemma gridAt_writeCell_same: "r < length d \<Longrightarrow> gridAt (writeCell d r c v) r c = v"
  by (simp add: gridAt_def writeCell_def setCol_def nth_append)


lemma spawnCell_empty:
  assumes "r < length (data st)" "gridAt (data st) r c = Null"
  shows "gridAt (data (spawnCell rnd c r st)) r c =
           Tile \<lparr>type = Some (if Rep_rand (rnd (randomCalls st + 1)) < 0.4
                               then (case getHelpfulTypeForPosition (data st) r c of
                                       Some h \<Rightarrow> h
                                     | None \<Rightarrow>
                                         tileTypes ! nat \<lfloor>Rep_rand (rnd (randomCalls st)) * 5\<rfloor>)
                               else tileTypes ! nat \<lfloor>Rep_rand (rnd (randomCalls st)) * 5\<rfloor>),
                 special = None, isMemory = False, memoryId = MemNull\<rparr>
         \<and> randomCalls (spawnCell rnd c r st) = randomCalls st + 2"
  using assms
  by (auto simp: spawnCell_def getRandomType_def mathRandom_def Let_def gridAt_writeCell_same
      tileTypes_def split: prod.splits option.splits)

text \<open>
  Claim C9, as stated, fails: the scan is row-major over the whole block and not by
  ascending radius. On \<open>boardM\<close>, for the empty cell (2,2), the memory tile at (0,0), two
  cells away, is met before the memory tile at (2,3), one cell away.
\<close>

theorem refill_bias_not_radius_ascending:
  "getHelpfulTypeForPosition boardM 2 2 \<noteq> helpfulTypeRadiusAscending boardM 2 2"
  by code_simp

text \<open>
  Claim C9, amended. \<^verbatim>\<open>getHelpfulTypeForPosition\<close> returns the kind of the first cell, in
  row-major order over the 5 by 5 block around the position, that is on the board and holds
  a memory tile, and null when the block has none. \<^verbatim>\<open>spawnNewTiles\<close> fills an empty cell
  with an ordinary tile from two calls of \<^verbatim>\<open>Math.random\<close>: the first picks a kind of
  \<^verbatim>\<open>tileTypes\<close>; when the second is below 0.4 and \<^verbatim>\<open>getHelpfulTypeForPosition\<close> returns a
  kind, that kind is used instead.
\<close>

theorem refill_bias_row_major:
  "(i < 25 \<and> taggedNear d r c i \<and> (\<forall>j<i. \<not> taggedNear d r c j) \<longrightarrow>
      getHelpfulTypeForPosition d r c = kindNear d r c i)
   \<and> ((\<forall>i<25. \<not> taggedNear d r c i) \<longrightarrow> getHelpfulTypeForPosition d r c = None)
   \<and> (r < length (data st) \<and> gridAt (data st) r c = Null \<longrightarrow>
        gridAt (data (spawnCell rnd c r st)) r c =
           Tile \<lparr>type = Some (if Rep_rand (rnd (randomCalls st + 1)) < 0.4
                               then (case getHelpfulTypeForPosition (data st) r c of
                                       Some h \<Rightarrow> h
                                     | None \<Rightarrow>
                                         tileTypes ! nat \<lfloor>Rep_rand (rnd (randomCalls st)) * 5\<rfloor>)
                               else tileTypes ! nat \<lfloor>Rep_rand (rnd (randomCalls st)) * 5\<rfloor>),
                 special = None, isMemory = False, memoryId = MemNull\<rparr>
        \<and> randomCalls (spawnCell rnd c r st) = randomCalls st + 2)"
  using getHelpful_first[of i d r c] getHelpful_none[of d r c] spawnCell_empty[of r st c rnd]
  by blast

theorem refill_bias_row_major_witness:
  "taggedNear boardM 2 2 0
   \<and> getHelpfulTypeForPosition boardM 2 2 = Some Heart
   \<and> gridAt (data (spawnCell (draws [9/10, 2/10]) 2 2 (state0\<lparr>data := boardM\<rparr>))) 2 2 =
       plain Heart"
proof -
  have t: "taggedNear boardM 2 2 0" by code_simp
  have k: "kindNear boardM 2 2 0 = Some Heart" by code_simp
  have n: "gridAt boardM 2 2 = Null" "2 < length boardM" by code_simp+
  have x: "Rep_rand (draws [9/10, 2/10] 1) < 0.4"
    by (simp add: draws_def Abs_rand_inverse)
  have h: "getHelpfulTypeForPosition boardM 2 2 = Some Heart"
    using t k refill_bias_row_major[of 0 boardM 2 2] by simp
  show ?thesis
    using t h n x refill_bias_row_major[of 0 boardM 2 2 "state0\<lparr>data := boardM\<rparr>"
        "draws [9/10, 2/10]"]
    by (simp add: state0_def plain_def)
qed

section \<open>shuffle\<close>

declare possibleFrom.simps [simp del]

text \<open>
  A board is \<open>paddedSquare\<close> when each of its rows has at least as many cells as the board
  has rows: what \<^verbatim>\<open>reassign\<close> leaves behind, and enough for \<^verbatim>\<open>findPossibleMatch\<close> to swap and
  swap back every pair it tries without leaving the rows.
\<close>

definition paddedSquare :: "grid \<Rightarrow> bool" where
  "paddedSquare g = (\<forall>r<length g. length g \<le> length (g ! r))"

lemma wouldMatch_padded:
  assumes "paddedSquare g" "row p < length g" "col p < length g" "row q < length g" "col q < length g"
  shows "\<exists>b. wouldMatch g p q = Some (b, g)"
proof -
  have "inBounds g p" "inBounds g q"
    using assms by (auto simp: inBounds_def paddedSquare_def intro: less_le_trans)
  then show ?thesis by (rule wouldMatch_restores)
qed

lemma possibleFrom_restores:
  "paddedSquare g \<Longrightarrow> n = length g \<Longrightarrow> \<exists>m. possibleFrom n g r c = Some (m, g)"
proof (induction n g r c rule: possibleFrom.induct)
  case (1 n grid r c)
  show ?case
  proof (cases "r < n")
    case False
    then show ?thesis by (subst possibleFrom.simps) simp
  next
    case r: True
    show ?thesis
    proof (cases "c < n")
      case False
      then show ?thesis
        using "1.IH"(2)[OF r False "1.prems"] r by (subst possibleFrom.simps) simp
    next
      case c: True
      have "\<exists>m1. (if c < n - 1
                then wouldMatch grid \<lparr>row = r, col = c\<rparr> \<lparr>row = r, col = c + 1\<rparr>
                else Some (False, grid)) = Some (m1, grid)"
        using wouldMatch_padded[OF "1.prems"(1), of "\<lparr>row = r, col = c\<rparr>" "\<lparr>row = r, col = c + 1\<rparr>"]
          r c "1.prems"(2) by auto
      then obtain m1 where m1: "(if c < n - 1
                then wouldMatch grid \<lparr>row = r, col = c\<rparr> \<lparr>row = r, col = c + 1\<rparr>
                else Some (False, grid)) = Some (m1, grid)" ..
      have "\<exists>m2. (if r < n - 1
                then wouldMatch grid \<lparr>row = r, col = c\<rparr> \<lparr>row = r + 1, col = c\<rparr>
                else Some (False, grid)) = Some (m2, grid)"
        using wouldMatch_padded[OF "1.prems"(1), of "\<lparr>row = r, col = c\<rparr>" "\<lparr>row = r + 1, col = c\<rparr>"]
          r c "1.prems"(2) by auto
      then obtain m2 where m2: "(if r < n - 1
                then wouldMatch grid \<lparr>row = r, col = c\<rparr> \<lparr>row = r + 1, col = c\<rparr>
                else Some (False, grid)) = Some (m2, grid)" ..
      show ?thesis
      proof (cases "m1 \<or> m2")
        case True
        then show ?thesis using r c m1 m2 by (subst possibleFrom.simps) auto
      next
        case False
        then have n1: "\<not> m1" and n2: "\<not> m2" by auto
        have "\<exists>m. possibleFrom n grid r (c + 1) = Some (m, grid)"
          using "1.IH"(1)[OF r c m1 refl n1 m2 refl n2 "1.prems"] .
        then show ?thesis using r c m1 m2 n1 n2 by (subst possibleFrom.simps) simp
      qed
    qed
  qed
qed

lemma findPossibleMatch_restores:
  "paddedSquare g \<Longrightarrow> \<exists>m. findPossibleMatch g = Some (m, g)"
  unfolding findPossibleMatch_def by (rule possibleFrom_restores) simp_all

lemma floor_index: "0 \<le> x \<Longrightarrow> x < 1 \<Longrightarrow> nat \<lfloor>x * real (Suc i)\<rfloor> \<le> i"
proof -
  assume x: "0 \<le> x" "x < 1"
  have "x * real (Suc i) < real (Suc i)" using x by simp
  then have "\<lfloor>x * real (Suc i)\<rfloor> < int (Suc i)" by (simp add: floor_less_iff)
  then show ?thesis by simp
qed

lemma Rep_rand_range: "0 \<le> Rep_rand x \<and> Rep_rand x < 1"
  using Rep_rand[of x] by simp

lemma fisherYatesStep_props:
  assumes "i < length tiles"
  shows "mset (fst (fisherYatesStep rnd i (tiles, st))) = mset tiles"
    and "length (fst (fisherYatesStep rnd i (tiles, st))) = length tiles"
    and "moves (snd (fisherYatesStep rnd i (tiles, st))) = moves st"
    and "data (snd (fisherYatesStep rnd i (tiles, st))) = data st"
proof -
  let ?j = "nat \<lfloor>Rep_rand (rnd (randomCalls st)) * real (i + 1)\<rfloor>"
  have "?j \<le> i" using floor_index[of "Rep_rand (rnd (randomCalls st))" i] Rep_rand_range by simp
  then have j: "?j < length tiles" using assms by simp
  have e: "fisherYatesStep rnd i (tiles, st) =
           (tiles[i := tiles ! ?j, ?j := tiles ! i], st\<lparr>randomCalls := randomCalls st + 1\<rparr>)"
    by (simp add: fisherYatesStep_def mathRandom_def Let_def)
  show "mset (fst (fisherYatesStep rnd i (tiles, st))) = mset tiles"
    unfolding e using mset_swap[OF j assms] by simp
  show "length (fst (fisherYatesStep rnd i (tiles, st))) = length tiles"
    unfolding e by simp
  show "moves (snd (fisherYatesStep rnd i (tiles, st))) = moves st"
    unfolding e by simp
  show "data (snd (fisherYatesStep rnd i (tiles, st))) = data st"
    unfolding e by simp
qed

lemma fold_fisherYatesStep:
  "\<forall>i \<in> set is. i < length tiles \<Longrightarrow>
   mset (fst (fold (fisherYatesStep rnd) is (tiles, st))) = mset tiles \<and>
   length (fst (fold (fisherYatesStep rnd) is (tiles, st))) = length tiles \<and>
   moves (snd (fold (fisherYatesStep rnd) is (tiles, st))) = moves st \<and>
   data (snd (fold (fisherYatesStep rnd) is (tiles, st))) = data st"
proof (induction "is" arbitrary: tiles st)
  case Nil
  then show ?case by simp
next
  case (Cons i "is")
  obtain t1 s1 where s: "fisherYatesStep rnd i (tiles, st) = (t1, s1)"
    by (cases "fisherYatesStep rnd i (tiles, st)")
  have i: "i < length tiles" using Cons.prems by simp
  have p: "mset t1 = mset tiles" "length t1 = length tiles" "moves s1 = moves st" "data s1 = data st"
    using fisherYatesStep_props[OF i, of rnd st] s by simp_all
  have "\<forall>i \<in> set is. i < length t1" using Cons.prems p by simp
  from Cons.IH[OF this, of s1] show ?case using p s by simp
qed

lemma fisherYates_props:
  "mset (fst (fisherYates rnd tiles st)) = mset tiles \<and>
   length (fst (fisherYates rnd tiles st)) = length tiles \<and>
   moves (snd (fisherYates rnd tiles st)) = moves st \<and>
   data (snd (fisherYates rnd tiles st)) = data st"
  unfolding fisherYates_def by (rule fold_fisherYatesStep) simp

text \<open>The board after the reassignment loop: cell \<open>(r, c)\<close> holds \<^verbatim>\<open>allTiles[r * size + c]\<close>.\<close>

definition tileOrUndefined :: "tile list \<Rightarrow> nat \<Rightarrow> cell" where
  "tileOrUndefined tiles i = (if i < length tiles then Tile (tiles ! i) else Undefined)"

lemma setCol_props:
  assumes "m \<le> length xs"
  shows "Suc m \<le> length (setCol xs m v)" "setCol xs m v ! m = v"
    "\<forall>c<m. setCol xs m v ! c = xs ! c"
  using assms by (auto simp: setCol_def nth_append)

lemma reassign_inner:
  assumes r: "r < length d"
  shows "m \<le> n \<Longrightarrow>
    (case fold (reassignCell tiles r) [0..<m] (d, i0) of (d', i') \<Rightarrow>
       i' = i0 + m \<and> length d' = length d \<and> (\<forall>r'. r' \<noteq> r \<longrightarrow> d' ! r' = d ! r') \<and>
       m \<le> length (d' ! r) \<and> (m = 0 \<longrightarrow> d' = d) \<and>
       (\<forall>c<m. d' ! r ! c = tileOrUndefined tiles (i0 + c)))"
proof (induction m)
  case 0
  then show ?case by simp
next
  case (Suc m)
  obtain d1 i1 where f: "fold (reassignCell tiles r) [0..<m] (d, i0) = (d1, i1)"
    by (cases "fold (reassignCell tiles r) [0..<m] (d, i0)")
  have ih: "i1 = i0 + m" "length d1 = length d" "\<forall>r'. r' \<noteq> r \<longrightarrow> d1 ! r' = d ! r'"
      "m \<le> length (d1 ! r)" "\<forall>c<m. d1 ! r ! c = tileOrUndefined tiles (i0 + c)"
    using Suc f by auto
  let ?v = "tileOrUndefined tiles i1"
  have step: "fold (reassignCell tiles r) [0..<Suc m] (d, i0) =
              (d1[r := setCol (d1 ! r) m ?v], i1 + 1)"
    by (simp add: f reassignCell_def writeCell_def tileOrUndefined_def)
  have r1: "r < length d1" using r ih(2) by simp
  show ?case
    unfolding step using ih r1 setCol_props[OF ih(4), of ?v]
    by (auto simp: nth_list_update less_Suc_eq)
qed

definition filledTo :: "tile list \<Rightarrow> nat \<Rightarrow> nat \<Rightarrow> grid \<Rightarrow> grid \<Rightarrow> bool" where
  "filledTo tiles n k d d' =
     (length d' = length d \<and>
      (\<forall>r<k. n \<le> length (d' ! r) \<and> (\<forall>c<n. d' ! r ! c = tileOrUndefined tiles (r * n + c))) \<and>
      (\<forall>r\<ge>k. d' ! r = d ! r))"

lemma reassign_outer:
  assumes n: "n = length d"
  shows "k \<le> n \<Longrightarrow>
    (case fold (\<lambda>r. fold (reassignCell tiles r) [0..<n]) [0..<k] (d, 0) of (d', i') \<Rightarrow>
       i' = k * n \<and> filledTo tiles n k d d')"
proof (induction k)
  case 0
  then show ?case by (simp add: filledTo_def)
next
  case (Suc k)
  obtain d1 i1 where f: "fold (\<lambda>r. fold (reassignCell tiles r) [0..<n]) [0..<k] (d, 0) = (d1, i1)"
    by (cases "fold (\<lambda>r. fold (reassignCell tiles r) [0..<n]) [0..<k] (d, 0)")
  have ih: "i1 = k * n" "filledTo tiles n k d d1" using Suc f by auto
  have k: "k < length d1" using Suc.prems ih(2) n by (simp add: filledTo_def)
  obtain d2 i2 where g: "fold (reassignCell tiles k) [0..<n] (d1, i1) = (d2, i2)"
    by (cases "fold (reassignCell tiles k) [0..<n] (d1, i1)")
  have in1: "i2 = i1 + n" "length d2 = length d1" "\<forall>r'. r' \<noteq> k \<longrightarrow> d2 ! r' = d1 ! r'"
      "n \<le> length (d2 ! k)" "\<forall>c<n. d2 ! k ! c = tileOrUndefined tiles (i1 + c)"
    using reassign_inner[OF k, where m = n and n = n and tiles = tiles and ?i0.0 = i1] g by auto
  have step: "fold (\<lambda>r. fold (reassignCell tiles r) [0..<n]) [0..<Suc k] (d, 0) = (d2, i2)"
    by (simp add: f g)
  have "filledTo tiles n (Suc k) d d2"
    unfolding filledTo_def
  proof (intro conjI allI impI)
    show "length d2 = length d" using in1(2) ih(2) by (simp add: filledTo_def)
  next
    fix r assume r: "r < Suc k"
    show "n \<le> length (d2 ! r)"
      using r in1 ih by (cases "r = k") (auto simp: filledTo_def)
  next
    fix r c assume r: "r < Suc k" and c: "c < n"
    show "d2 ! r ! c = tileOrUndefined tiles (r * n + c)"
      using r c in1 ih by (cases "r = k") (auto simp: filledTo_def)
  next
    fix r assume "Suc k \<le> r"
    then show "d2 ! r = d ! r" using in1(3) ih(2) by (auto simp: filledTo_def)
  qed
  then show ?case unfolding step using in1(1) ih(1) by simp
qed

lemma reassign_filled: "filledTo tiles (length d) (length d) d (reassign tiles d)"
  using reassign_outer[OF refl, where k = "length d" and d = d and tiles = tiles]
  by (simp add: reassign_def split: prod.splits)

lemma reassign_padded: "paddedSquare (reassign tiles d)"
  using reassign_filled[of tiles d] by (simp add: filledTo_def paddedSquare_def)

lemma reassign_gridAt:
  "r < length d \<Longrightarrow> c < length d \<Longrightarrow>
   gridAt (reassign tiles d) r c = tileOrUndefined tiles (r * length d + c)"
  using reassign_filled[of tiles d] by (auto simp: filledTo_def gridAt_def)

lemma length_reassign: "length (reassign tiles d) = length d"
  using reassign_filled[of tiles d] by (simp add: filledTo_def)

lemma concat_rows:
  "concat (map (\<lambda>r. concat (map (\<lambda>c. h (r * n + c)) [0..<n])) [0..<k]) =
   concat (map h [0..<k * n])"
proof (induction k)
  case 0
  then show ?case by simp
next
  case (Suc k)
  have "[0..<Suc k * n] = [0..<k * n] @ [k * n..<k * n + n]"
    using upt_add_eq_append[of 0 "k * n" n] by (simp add: add.commute)
  moreover have "map h [k * n..<k * n + n] = map (\<lambda>c. h (k * n + c)) [0..<n]"
  proof -
    have "[k * n..<k * n + n] = map (\<lambda>i. i + k * n) [0..<n]"
      using map_add_upt[of "k * n" n] by (simp add: add.commute)
    then show ?thesis by (simp add: comp_def add.commute)
  qed
  ultimately show ?case using Suc by simp
qed

lemma concat_take:
  "concat (map (\<lambda>i. if i < length xs then [xs ! i] else []) [0..<N]) = take N xs"
proof (induction N)
  case 0
  then show ?case by simp
next
  case (Suc N)
  then show ?case by (simp add: take_Suc_conv_app_nth)
qed

lemma collectTiles_reassign:
  "collectTiles (reassign tiles d) = take (length d * length d) tiles"
proof -
  let ?n = "length d"
  let ?h = "\<lambda>i. if i < length tiles then [tiles ! i] else []"
  have cell: "(case gridAt (reassign tiles d) r c of Tile t \<Rightarrow> [t] | _ \<Rightarrow> []) = ?h (r * ?n + c)"
    if "r < ?n" "c < ?n" for r c
    using that by (simp add: reassign_gridAt tileOrUndefined_def)
  have "collectTiles (reassign tiles d) =
        concat (map (\<lambda>r. concat (map (\<lambda>c. ?h (r * ?n + c)) [0..<?n])) [0..<?n])"
    unfolding collectTiles_def length_reassign
    by (intro arg_cong[where f = concat] map_cong refl) (simp add: cell)
  also have "\<dots> = concat (map ?h [0..<?n * ?n])" by (rule concat_rows)
  also have "\<dots> = take (?n * ?n) tiles" by (rule concat_take)
  finally show ?thesis .
qed

lemma length_concat_le:
  "(\<And>x. x \<in> set xs \<Longrightarrow> length (f x) \<le> b) \<Longrightarrow> length (concat (map f xs)) \<le> b * length xs"
  by (induction xs) (auto simp: add_le_mono)

lemma length_collectTiles: "length (collectTiles d) \<le> length d * length d"
proof -
  have "length (concat (map (\<lambda>c. case gridAt d r c of Tile t \<Rightarrow> [t] | _ \<Rightarrow> []) [0..<length d]))
        \<le> 1 * length [0..<length d]" for r
    by (rule length_concat_le) (simp split: cell.splits)
  then have "length (collectTiles d) \<le> length d * length [0..<length d]"
    unfolding collectTiles_def by (intro length_concat_le) simp
  then show ?thesis by simp
qed

lemma shuffle_round:
  assumes "fisherYates rnd (collectTiles (data st)) st = (tiles, st1)"
  defines "st2 \<equiv> st1\<lparr>data := reassign tiles (data st1)\<rparr>"
  shows "mset (collectTiles (data st2)) = mset (collectTiles (data st))"
    and "moves st2 = moves st" and "paddedSquare (data st2)"
proof -
  have p: "mset tiles = mset (collectTiles (data st))" "length tiles = length (collectTiles (data st))"
      "moves st1 = moves st" "data st1 = data st"
    using fisherYates_props[of rnd "collectTiles (data st)" st] assms(1) by simp_all
  have "length tiles \<le> length (data st) * length (data st)"
    using p(2) length_collectTiles[of "data st"] by simp
  then show "mset (collectTiles (data st2)) = mset (collectTiles (data st))"
    using p by (simp add: st2_def collectTiles_reassign)
  show "moves st2 = moves st" using p by (simp add: st2_def)
  show "paddedSquare (data st2)" by (simp add: st2_def reassign_padded)
qed

text \<open>What holds of the state \<^verbatim>\<open>shuffle\<close> leaves when it returns.\<close>

definition shuffled :: "state \<Rightarrow> state \<Rightarrow> bool" where
  "shuffled st st' =
     (matches (findAllMatches (data st')) = [] \<and>
      (\<exists>p q. findPossibleMatch (data st') = Some (Some (p, q), data st')) \<and>
      mset (collectTiles (data st')) = mset (collectTiles (data st)) \<and>
      moves st' = moves st)"

lemma shuffle_returns:
  assumes ret: "shuffle rnd0 st0 = Some st0'"
  shows "shuffled st0 st0'"
proof (rule shuffle.raw_induct[where P = "\<lambda>r s y. shuffled s y", OF _ ret])
  fix sh :: "(nat \<Rightarrow> rand) \<Rightarrow> state \<Rightarrow> state option" and rnd st st'
  assume IH: "\<And>r s y. sh r s = Some y \<Longrightarrow> shuffled s y"
  assume b0: "(case fisherYates rnd (collectTiles (data st)) st of
      (allTiles, st1) \<Rightarrow>
        let st2 = st1\<lparr>data := reassign allTiles (data st1)\<rparr>
        in if matches (findAllMatches (data st2)) \<noteq> [] then sh rnd st2
           else case hasPossibleMoves st2 of None \<Rightarrow> None
                | Some (possible, st3) \<Rightarrow>
                    if \<not> possible then sh rnd st3 else Some st3) =
     Some st'"
  obtain tiles st1 where fy: "fisherYates rnd (collectTiles (data st)) st = (tiles, st1)"
    by (cases "fisherYates rnd (collectTiles (data st)) st")
  define st2 where "st2 = st1\<lparr>data := reassign tiles (data st1)\<rparr>"
  note r = shuffle_round[OF fy, folded st2_def]
  obtain m where m: "findPossibleMatch (data st2) = Some (m, data st2)"
    using findPossibleMatch_restores[OF r(3)] by blast
  have h: "hasPossibleMoves st2 = Some (m \<noteq> None, st2)"
    by (simp add: hasPossibleMoves_def m)
  have "(if matches (findAllMatches (data st2)) \<noteq> [] then sh rnd st2
         else case hasPossibleMoves st2 of
                None \<Rightarrow> None
              | Some (possible, st3) \<Rightarrow> if \<not> possible then sh rnd st3 else Some st3) =
        Some st'"
    using b0 unfolding fy prod.case Let_def st2_def[symmetric] .
  then have body: "(if matches (findAllMatches (data st2)) \<noteq> [] then sh rnd st2
               else if m = None then sh rnd st2 else Some st2) = Some st'"
    by (cases "matches (findAllMatches (data st2)) \<noteq> []"; cases m) (simp_all add: h)
  show "shuffled st st'"
  proof (cases "matches (findAllMatches (data st2)) \<noteq> [] \<or> m = None")
    case True
    then have "sh rnd st2 = Some st'" using body by (auto split: if_splits)
    then have "shuffled st2 st'" by (rule IH)
    then show ?thesis using r by (simp add: shuffled_def)
  next
    case False
    then have e: "st' = st2" using body by auto
    obtain p q where "m = Some (p, q)" using False by (cases m) auto
    then show ?thesis using False r m by (simp add: shuffled_def e)
  qed
qed

text \<open>A board with the pair of hearts in the first row, and the draws that exchange its
  first and last tile and leave every other tile in place.\<close>

definition drawsS :: "real list" where
  "drawsS = [0, 9/10, 9/10, 9/10, 9/10, 9/10, 9/10, 9/10]"

definition boardS :: grid where
  "boardS =
    [map plain [Heart, Heart, Diamond],
     map plain [Diamond, Rose, Heart],
     map plain [Rose, Diamond, Rose]]"

definition boardS' :: grid where
  "boardS' =
    [map plain [Rose, Heart, Diamond],
     map plain [Diamond, Rose, Heart],
     map plain [Rose, Diamond, Heart]]"

lemma fisherYates_example:
  "fisherYates (draws drawsS) (collectTiles boardS) (state0\<lparr>data := boardS\<rparr>) =
   (collectTiles boardS', state0\<lparr>data := boardS, randomCalls := 8\<rparr>)"
  by (simp add: fisherYates_def fisherYatesStep_def collectTiles_def mathRandom_def draws_def
      drawsS_def Abs_rand_inverse gridAt_def boardS_def boardS'_def plain_def state0_def
      Let_def upt_rec numeral_2_eq_2 numeral_3_eq_3)

lemma reassign_example: "reassign (collectTiles boardS') boardS = boardS'"
  by (simp add: reassign_def reassignCell_def collectTiles_def writeCell_def setCol_def
      gridAt_def boardS_def boardS'_def plain_def Let_def upt_rec numeral_2_eq_2 numeral_3_eq_3)

lemma boardS'_matches: "matches (findAllMatches boardS') = []"
  by code_simp

lemma boardS'_possible:
  "findPossibleMatch boardS' = Some (Some (\<lparr>row = 0, col = 1\<rparr>, \<lparr>row = 0, col = 2\<rparr>), boardS')"
  by code_simp

lemma shuffle_example:
  "shuffle (draws drawsS) (state0\<lparr>data := boardS\<rparr>) =
   Some (state0\<lparr>data := boardS', randomCalls := 8\<rparr>)"
  by (subst shuffle.simps)
     (simp add: fisherYates_example reassign_example boardS'_matches hasPossibleMoves_def
        boardS'_possible)

text \<open>
  Claim C8. Whenever \<^verbatim>\<open>shuffle\<close> returns, the board has no immediate match
  (\<^verbatim>\<open>findAllMatches\<close> returns an empty match set), it has a possible move
  (\<^verbatim>\<open>findPossibleMatch\<close> returns a pair of positions, and leaves the board as it was), the
  tiles on the board are a permutation of the tiles that were on it before, and the number
  of moves left is the same.
\<close>

theorem shuffle_result:
  "shuffle rnd st = Some st' \<Longrightarrow>
   matches (findAllMatches (data st')) = [] \<and>
   (\<exists>p q. findPossibleMatch (data st') = Some (Some (p, q), data st')) \<and>
   mset (collectTiles (data st')) = mset (collectTiles (data st)) \<and>
   moves st' = moves st"
  using shuffle_returns[of rnd st st'] by (simp add: shuffled_def)

theorem shuffle_result_witness:
  "shuffle (draws drawsS) (state0\<lparr>data := boardS\<rparr>) =
     Some (state0\<lparr>data := boardS', randomCalls := 8\<rparr>) \<and>
   matches (findAllMatches boardS') = [] \<and>
   (\<exists>p q. findPossibleMatch boardS' = Some (Some (p, q), boardS')) \<and>
   mset (collectTiles boardS') = mset (collectTiles boardS) \<and>
   moves (state0\<lparr>data := boardS', randomCalls := 8\<rparr>) = moves (state0\<lparr>data := boardS\<rparr>)"
  using shuffle_result[OF shuffle_example] shuffle_example by simp

section \<open>Moves consumed by a swap\<close>

subsection \<open>No call of a turn throws\<close>

text \<open>\<^verbatim>\<open>findPossibleMatch\<close> reads and writes rows below \<^verbatim>\<open>grid.length\<close> only, so it returns on
  every board; so does \<^verbatim>\<open>shuffle\<close>, looked at after any number of rounds, and it leaves
  \<^verbatim>\<open>Game.moves\<close> alone. A returning run of the fuelled \<^verbatim>\<open>shuffle\<close> is a returning run of the
  recursive one, and conversely.\<close>

lemma wouldMatch_total:
  assumes "row p < length g" "row q < length g"
  shows "\<exists>b g'. wouldMatch g p q = Some (b, g') \<and> length g' = length g"
  using assms by (auto simp add: wouldMatch_def readCell_def setCell_def Let_def)

lemma possibleFrom_total:
  "n = length g \<Longrightarrow> \<exists>m g'. possibleFrom n g r c = Some (m, g') \<and> length g' = length g"
proof (induction n g r c rule: possibleFrom.induct)
  case (1 n grid r c)
  show ?case
  proof (cases "r < n")
    case False
    then show ?thesis by (subst possibleFrom.simps) simp
  next
    case r: True
    show ?thesis
    proof (cases "c < n")
      case False
      then show ?thesis
        using "1.IH"(2)[OF r False "1.prems"] r by (subst possibleFrom.simps) simp
    next
      case c: True
      have "\<exists>m1 g1. (if c < n - 1
                then wouldMatch grid \<lparr>row = r, col = c\<rparr> \<lparr>row = r, col = c + 1\<rparr>
                else Some (False, grid)) = Some (m1, g1) \<and> length g1 = length grid"
        using wouldMatch_total[of "\<lparr>row = r, col = c\<rparr>" grid "\<lparr>row = r, col = c + 1\<rparr>"]
          r "1.prems" by auto
      then obtain m1 g1 where m1: "(if c < n - 1
                then wouldMatch grid \<lparr>row = r, col = c\<rparr> \<lparr>row = r, col = c + 1\<rparr>
                else Some (False, grid)) = Some (m1, g1)" and l1: "length g1 = length grid"
        by blast
      have "\<exists>m2 g2. (if r < n - 1
                then wouldMatch g1 \<lparr>row = r, col = c\<rparr> \<lparr>row = r + 1, col = c\<rparr>
                else Some (False, g1)) = Some (m2, g2) \<and> length g2 = length g1"
        using wouldMatch_total[of "\<lparr>row = r, col = c\<rparr>" g1 "\<lparr>row = r + 1, col = c\<rparr>"]
          r l1 "1.prems" by auto
      then obtain m2 g2 where m2: "(if r < n - 1
                then wouldMatch g1 \<lparr>row = r, col = c\<rparr> \<lparr>row = r + 1, col = c\<rparr>
                else Some (False, g1)) = Some (m2, g2)" and l2: "length g2 = length g1"
        by blast
      show ?thesis
      proof (cases "m1 \<or> m2")
        case True
        then show ?thesis using r c m1 m2 l1 l2 by (subst possibleFrom.simps) auto
      next
        case False
        then have n1: "\<not> m1" and n2: "\<not> m2" by auto
        have n: "n = length g2" using l1 l2 "1.prems" by simp
        have "\<exists>m g'. possibleFrom n g2 r (c + 1) = Some (m, g') \<and> length g' = length g2"
          using "1.IH"(1)[OF r c m1 refl n1 m2 refl n2 n] .
        then show ?thesis using r c m1 m2 n1 n2 l1 l2 by (subst possibleFrom.simps) simp
      qed
    qed
  qed
qed

lemma hasPossibleMoves_total:
  "\<exists>b st'. hasPossibleMoves st = Some (b, st') \<and> moves st' = moves st"
proof -
  obtain m g where "findPossibleMatch (data st) = Some (m, g)"
    using possibleFrom_total[OF refl, of "data st" 0 0] by (auto simp: findPossibleMatch_def)
  then show ?thesis by (simp add: hasPossibleMoves_def)
qed

lemma shuffle_fuel_step:
  assumes "fisherYates rnd (collectTiles (data st)) st = (tiles, st1)"
    and "st2 = st1\<lparr>data := reassign tiles (data st1)\<rparr>"
  shows "shuffle_fuel (Suc fuel) rnd st =
           (if matches (findAllMatches (data st2)) \<noteq> [] then shuffle_fuel fuel rnd st2
            else (case hasPossibleMoves st2 of
                    None \<Rightarrow> None
                  | Some (possible, st3) \<Rightarrow>
                      if \<not> possible then shuffle_fuel fuel rnd st3 else Some (Returned st3)))"
  unfolding shuffle_fuel.simps assms(1) prod.case Let_def assms(2) ..

lemma shuffle_step:
  assumes "fisherYates rnd (collectTiles (data st)) st = (tiles, st1)"
    and "st2 = st1\<lparr>data := reassign tiles (data st1)\<rparr>"
  shows "shuffle rnd st =
           (if matches (findAllMatches (data st2)) \<noteq> [] then shuffle rnd st2
            else (case hasPossibleMoves st2 of
                    None \<Rightarrow> None
                  | Some (possible, st3) \<Rightarrow>
                      if \<not> possible then shuffle rnd st3 else Some st3))"
  by (subst shuffle.simps) (simp only: assms(1) prod.case Let_def assms(2))

lemma shuffle_fuel_total:
  "\<exists>x. shuffle_fuel fuel rnd st = Some x \<and> moves (stateOf x) = moves st"
proof (induction fuel arbitrary: st)
  case 0
  then show ?case by simp
next
  case (Suc fuel)
  obtain tiles st1 where fy: "fisherYates rnd (collectTiles (data st)) st = (tiles, st1)"
    by (cases "fisherYates rnd (collectTiles (data st)) st")
  have m1: "moves st1 = moves st"
    using fisherYates_props[of rnd "collectTiles (data st)" st] by (simp add: fy)
  define st2 where "st2 = st1\<lparr>data := reassign tiles (data st1)\<rparr>"
  have m2: "moves st2 = moves st" by (simp add: st2_def m1)
  obtain b st3 where h: "hasPossibleMoves st2 = Some (b, st3)" and m3: "moves st3 = moves st2"
    using hasPossibleMoves_total[of st2] by blast
  have e: "shuffle_fuel (Suc fuel) rnd st =
           (if matches (findAllMatches (data st2)) \<noteq> [] then shuffle_fuel fuel rnd st2
            else if \<not> b then shuffle_fuel fuel rnd st3 else Some (Returned st3))"
    unfolding shuffle_fuel_step[OF fy st2_def] h by simp
  show ?case
    unfolding e using Suc.IH[of st2] Suc.IH[of st3] m2 m3 by auto
qed

lemma shuffle_fuel_returned:
  "shuffle_fuel fuel rnd st = Some (Returned st') \<Longrightarrow> shuffle rnd st = Some st'"
proof (induction fuel arbitrary: st)
  case 0
  then show ?case by simp
next
  case (Suc fuel)
  obtain tiles st1 where fy: "fisherYates rnd (collectTiles (data st)) st = (tiles, st1)"
    by (cases "fisherYates rnd (collectTiles (data st)) st")
  define st2 where "st2 = st1\<lparr>data := reassign tiles (data st1)\<rparr>"
  note f = shuffle_fuel_step[OF fy st2_def] and s = shuffle_step[OF fy st2_def]
  show ?case
  proof (cases "matches (findAllMatches (data st2)) \<noteq> []")
    case True
    then have "shuffle_fuel fuel rnd st2 = Some (Returned st')"
      using Suc.prems unfolding f by simp
    then have "shuffle rnd st2 = Some st'" by (rule Suc.IH)
    then show ?thesis using True unfolding s by simp
  next
    case False
    show ?thesis
    proof (cases "hasPossibleMoves st2")
      case None
      then show ?thesis using Suc.prems False unfolding f by simp
    next
      case (Some a)
      obtain b st3 where a: "a = (b, st3)" by (cases a)
      show ?thesis
      proof (cases b)
        case True
        then show ?thesis using Suc.prems False Some a unfolding f s by simp
      next
        case nb: False
        then have "shuffle_fuel fuel rnd st3 = Some (Returned st')"
          using Suc.prems False Some a unfolding f by simp
        then have "shuffle rnd st3 = Some st'" by (rule Suc.IH)
        then show ?thesis using False Some a nb unfolding s by simp
      qed
    qed
  qed
qed

lemma shuffle_returns_fuel:
  assumes ret: "shuffle rnd0 st0 = Some st0'"
  shows "\<exists>fuel. shuffle_fuel fuel rnd0 st0 = Some (Returned st0')"
proof (rule shuffle.raw_induct[where P = "\<lambda>r s y. \<exists>fuel. shuffle_fuel fuel r s = Some (Returned y)",
      OF _ ret])
  fix sh :: "(nat \<Rightarrow> rand) \<Rightarrow> state \<Rightarrow> state option" and rnd st st'
  assume IH: "\<And>r s y. sh r s = Some y \<Longrightarrow> \<exists>fuel. shuffle_fuel fuel r s = Some (Returned y)"
  assume b0: "(case fisherYates rnd (collectTiles (data st)) st of
      (allTiles, st1) \<Rightarrow>
        let st2 = st1\<lparr>data := reassign allTiles (data st1)\<rparr>
        in if matches (findAllMatches (data st2)) \<noteq> [] then sh rnd st2
           else case hasPossibleMoves st2 of None \<Rightarrow> None
                | Some (possible, st3) \<Rightarrow>
                    if \<not> possible then sh rnd st3 else Some st3) =
     Some st'"
  obtain tiles st1 where fy: "fisherYates rnd (collectTiles (data st)) st = (tiles, st1)"
    by (cases "fisherYates rnd (collectTiles (data st)) st")
  define st2 where "st2 = st1\<lparr>data := reassign tiles (data st1)\<rparr>"
  note f = shuffle_fuel_step[OF fy st2_def]
  obtain b st3 where h: "hasPossibleMoves st2 = Some (b, st3)"
    using hasPossibleMoves_total[of st2] by blast
  have "(if matches (findAllMatches (data st2)) \<noteq> [] then sh rnd st2
         else case hasPossibleMoves st2 of
                None \<Rightarrow> None
              | Some (possible, st3) \<Rightarrow> if \<not> possible then sh rnd st3 else Some st3) =
        Some st'"
    using b0 unfolding fy prod.case Let_def st2_def[symmetric] .
  then have body: "(if matches (findAllMatches (data st2)) \<noteq> [] then sh rnd st2
               else if \<not> b then sh rnd st3 else Some st3) = Some st'"
    by (cases "matches (findAllMatches (data st2)) \<noteq> []") (simp_all add: h)
  show "\<exists>fuel. shuffle_fuel fuel rnd st = Some (Returned st')"
  proof (cases "matches (findAllMatches (data st2)) \<noteq> []")
    case True
    then have "sh rnd st2 = Some st'" using body by simp
    then obtain fuel where "shuffle_fuel fuel rnd st2 = Some (Returned st')" using IH by blast
    then have "shuffle_fuel (Suc fuel) rnd st = Some (Returned st')"
      using True unfolding f by simp
    then show ?thesis ..
  next
    case False
    show ?thesis
    proof (cases b)
      case True
      then have "shuffle_fuel (Suc 0) rnd st = Some (Returned st')"
        using body False h unfolding f by simp
      then show ?thesis ..
    next
      case nb: False
      then have "sh rnd st3 = Some st'" using body False by simp
      then obtain fuel where "shuffle_fuel fuel rnd st3 = Some (Returned st')" using IH by blast
      then have "shuffle_fuel (Suc fuel) rnd st = Some (Returned st')"
        using False nb h unfolding f by simp
      then show ?thesis ..
    qed
  qed
qed

text \<open>Every position that \<^verbatim>\<open>findAllMatches\<close>, \<^verbatim>\<open>getSpecialClearPositions\<close> and
  \<^verbatim>\<open>getSpecialCombinationClearPositions\<close> return lies in a row of the board, so
  \<^verbatim>\<open>removeMatches\<close> finds the row of every position it is given.\<close>

definition keyRows :: "grid \<Rightarrow> key list \<times> spawn list \<Rightarrow> bool" where
  "keyRows grid acc = (\<forall>k \<in> set (fst acc). fst k < length grid)"

lemma hEmit_keyRows:
  "keyRows grid acc \<Longrightarrow> r < length grid \<Longrightarrow> keyRows grid (hEmit grid r ms ml acc)"
  by (auto simp: keyRows_def hEmit_def set_fold_setAdd)

lemma hscan_keyRows:
  "keyRows grid acc \<Longrightarrow> r < length grid \<Longrightarrow> keyRows grid (hscan grid r c ms ml acc)"
proof (induction "Suc (length grid) - c" arbitrary: c ms ml acc)
  case 0
  then show ?case by (simp add: hscan_stop)
next
  case (Suc n)
  then have c: "c \<le> length grid" by simp
  show ?case
  proof (cases "hlink grid r c")
    case True
    then show ?thesis using Suc c by (simp add: hscan_link)
  next
    case False
    then show ?thesis using Suc c hEmit_keyRows[of grid acc r ms ml]
      by (simp add: hscan_break)
  qed
qed

lemma vEmit_keyRows:
  "keyRows grid acc \<Longrightarrow> ms + ml \<le> length grid \<Longrightarrow> keyRows grid (vEmit grid c ms ml acc)"
  by (auto simp: keyRows_def vEmit_def set_fold_setAdd)

lemma vscan_keyRows:
  "keyRows grid acc \<Longrightarrow> ms + ml = r \<Longrightarrow> keyRows grid (vscan grid c r ms ml acc)"
proof (induction "Suc (length grid) - r" arbitrary: r ms ml acc)
  case 0
  then show ?case by (simp add: vscan_stop)
next
  case (Suc n)
  then have r: "r \<le> length grid" by simp
  show ?case
  proof (cases "vlink grid c r")
    case True
    then show ?thesis using Suc r by (simp add: vscan_link)
  next
    case False
    have "keyRows grid (vEmit grid c ms ml acc)"
      using Suc.prems r by (simp add: vEmit_keyRows)
    then show ?thesis using False Suc r by (simp add: vscan_break)
  qed
qed

lemma passes_keyRows: "keyRows grid (verticalPass grid (horizontalPass grid))"
proof -
  have h: "keyRows grid acc \<Longrightarrow> set rs \<subseteq> {..<length grid} \<Longrightarrow>
           keyRows grid (fold (\<lambda>r. hscan grid r 1 0 1) rs acc)" for rs acc
    by (induction rs arbitrary: acc) (simp_all add: hscan_keyRows)
  have v: "keyRows grid acc \<Longrightarrow> keyRows grid (fold (\<lambda>c. vscan grid c 1 0 1) cs acc)" for cs acc
    by (induction cs arbitrary: acc) (simp_all add: vscan_keyRows)
  have "keyRows grid ([], [])" by (simp add: keyRows_def)
  then have "keyRows grid (horizontalPass grid)"
    unfolding horizontalPass_def by (rule h) auto
  then show ?thesis unfolding verticalPass_def by (rule v)
qed

lemma matches_rows:
  assumes "m \<in> set (matches (findAllMatches grid))"
  shows "row m < length grid"
proof -
  have "key m \<in> set (fst (verticalPass grid (horizontalPass grid)))"
    using assms matches_keys[of grid, symmetric] by simp
  then show ?thesis using passes_keyRows[of grid] by (auto simp: keyRows_def key_def)
qed

lemma getSpecialClearPositions_rows:
  "row p < length d \<Longrightarrow> m \<in> set (getSpecialClearPositions d p s) \<Longrightarrow> row m < length d"
  by (cases s) (auto simp: getSpecialClearPositions_def Let_def split: if_splits)

lemma specialsToActivate_rows:
  "(p, s) \<in> set (specialsToActivate d ms) \<Longrightarrow> p \<in> set ms"
  by (auto simp: specialsToActivate_def split: cell.splits option.splits)

lemma allMatches_rows:
  assumes "m \<in> set (allMatches d)"
  shows "row m < length d"
  using assms
  by (auto simp: allMatches_def dest: matches_rows
      dest!: specialsToActivate_rows intro: getSpecialClearPositions_rows)

lemma dedupFrom_subset: "set (dedupFrom seen ps) \<subseteq> set ps"
  by (induction ps arbitrary: seen) auto

lemma uniqueMatches_rows: "m \<in> set (uniqueMatches d) \<Longrightarrow> row m < length d"
  using dedupFrom_subset[of "[]" "allMatches d"]
  by (auto simp: uniqueMatches_def deduplicatePositions_def intro: allMatches_rows)

definition cposRows :: "nat \<Rightarrow> cpos list \<times> key list \<Rightarrow> bool" where
  "cposRows n acc = (\<forall>m \<in> set (fst acc). row m < n)"

lemma addPos_cposRows: "cposRows n acc \<Longrightarrow> cposRows n (addPos n a r c acc)"
  by (cases acc) (auto simp: cposRows_def addPos_def)

lemma fold_addPos_cposRows:
  "cposRows n acc \<Longrightarrow> cposRows n (fold (\<lambda>x. addPos n a (f x) (g x)) xs acc)"
  by (induction xs arbitrary: acc) (simp_all add: addPos_cposRows)

lemma fold2_addPos_cposRows:
  "cposRows n acc \<Longrightarrow>
   cposRows n (fold (\<lambda>x. fold (\<lambda>y. addPos n a (f x y) (g x y)) ys) xs acc)"
  by (induction xs arbitrary: acc) (simp_all add: fold_addPos_cposRows)

lemma getSpecialCombinationClearPositions_rows:
  assumes "m \<in> set (getSpecialCombinationClearPositions d comb)"
  shows "row m < length d"
proof -
  have e: "cposRows (length d) ([], [])" by (simp add: cposRows_def)
  have "cposRows (length d)
     (case combinationType comb of
        StripedStriped \<Rightarrow>
          fold (\<lambda>r. addPos (length d) ClearingCross (int r) (int (col (pos2 comb)))) [0..<length d]
         (fold (\<lambda>c. addPos (length d) ClearingCross (int (row (pos2 comb))) (int c)) [0..<length d]
         (fold (\<lambda>r. addPos (length d) ClearingCross (int r) (int (col (pos1 comb)))) [0..<length d]
         (fold (\<lambda>c. addPos (length d) ClearingCross (int (row (pos1 comb))) (int c)) [0..<length d]
            ([], []))))
      | StripedWrapped \<Rightarrow>
          fold (\<lambda>dc. fold (\<lambda>r. addPos (length d) ClearingGiantCross (int r)
                    (int (col (pos1 comb)) + dc)) [0..<length d]) [-1..1]
         (fold (\<lambda>dr. fold (\<lambda>c. addPos (length d) ClearingGiantCross
                    (int (row (pos1 comb)) + dr) (int c)) [0..<length d]) [-1..1] ([], []))
      | WrappedWrapped \<Rightarrow>
          fold (\<lambda>dr. fold (\<lambda>dc. addPos (length d) MegaExploding (int (row (pos1 comb)) + dr)
                    (int (col (pos1 comb)) + dc)) [-2..2]) [-2..2] ([], [])
      | Unknown \<Rightarrow> ([], []))"
    by (cases "combinationType comb")
       (simp_all only: combo.case e fold_addPos_cposRows fold2_addPos_cposRows)
  then show ?thesis
    using assms by (simp add: getSpecialCombinationClearPositions_def Let_def cposRows_def)
qed

lemma allPositions_rows:
  assumes "\<forall>m \<in> set cps. row m < length d" and "m \<in> set (allPositions d p q cps)"
  shows "row m < length d"
  using assms
  by (auto simp: allPositions_def split: if_splits cell.splits option.splits
      intro: getSpecialClearPositions_rows)

lemma uniquePositions_rows: "m \<in> set (uniquePositions d p q comb) \<Longrightarrow> row m < length d"
  using dedupFrom_subset[of "[]" "allPositions d p q (getSpecialCombinationClearPositions d comb)"]
    allPositions_rows[of "getSpecialCombinationClearPositions d comb" d _ p q]
    getSpecialCombinationClearPositions_rows[of _ d comb]
  by (auto simp: uniquePositions_def deduplicatePositions_def)

lemma collectMemoryTiles_total:
  "\<forall>m \<in> set ms. row m < length d \<Longrightarrow> \<exists>mt. collectMemoryTiles d ms = Some mt"
  by (induction ms) (auto simp: readCell_def)

lemma clearData_total:
  "\<forall>m \<in> set ms. row m < length d \<Longrightarrow> \<exists>d'. clearData d ms = Some d'"
  by (induction ms arbitrary: d) (auto simp: setCell_def)

lemma removeMatches_total:
  assumes "\<forall>m \<in> set ms. row m < length (data st)"
  shows "\<exists>mt st'. removeMatches ms st = Some (mt, st') \<and> moves st' = moves st"
  using collectMemoryTiles_total[OF assms] clearData_total[OF assms]
  by (auto simp: removeMatches_def)

lemma specialsToCreate_empty:
  "specialsToCreate (map key (uniqueMatches d)) (specials (findAllMatches d)) = []"
  using specials_in_matches[of d] matches_in_uniqueMatches[of d]
  by (auto simp: specialsToCreate_def filter_empty_conv)

subsection \<open>The move counter during a turn\<close>

text \<open>\<open>settles r k\<close> says that the call has not thrown and that, returned, suspended or still
  running, it has left \<^verbatim>\<open>Game.moves\<close> at \<open>k\<close>. No step of a turn other than the decrement of
  \<^verbatim>\<open>attemptSwap\<close> and of \<^verbatim>\<open>processSpecialCombination\<close> writes \<^verbatim>\<open>Game.moves\<close>.\<close>

definition settles :: "run option \<Rightarrow> int \<Rightarrow> bool" where
  "settles r k = (\<exists>x. r = Some x \<and> moves (stateOf x) = k)"

lemma settles_Some [simp]: "settles (Some x) k = (moves (stateOf x) = k)"
  by (simp add: settles_def)

lemma andThen_settles:
  assumes "settles r k" and "\<And>st. moves st = k \<Longrightarrow> settles (f st) k"
  shows "settles (andThen r f) k"
proof -
  obtain x where x: "r = Some x" "moves (stateOf x) = k"
    using assms(1) by (auto simp: settles_def)
  show ?thesis using x assms(2) by (cases x) (simp_all add: andThen_def)
qed

lemma swapTiles_total:
  assumes "row p < length (data st)" "row q < length (data st)"
  shows "\<exists>st'. swapTiles p q st = Some st' \<and> moves st' = moves st"
  using assms by (simp add: swapTiles_def readCell_def setCell_def)

lemma revealMemories_moves: "moves (stateOf (revealMemories closes mt st)) = moves st"
  by (induction mt arbitrary: st) (simp_all add: revealMemory_def)

lemma applyGravity_moves: "moves (applyGravity st) = moves st"
  by (simp add: applyGravity_def Let_def)

lemma spawnCell_moves: "moves (spawnCell rnd c r st) = moves st"
  by (simp add: spawnCell_def getRandomType_def mathRandom_def Let_def split: prod.splits)

lemma spawnNewTiles_moves: "moves (spawnNewTiles rnd st) = moves st"
proof -
  have inner: "moves (fold (spawnCell rnd c) rs s) = moves s" for c rs s
    by (induction rs arbitrary: s) (simp_all add: spawnCell_moves)
  have outer: "moves (fold (\<lambda>c. fold (spawnCell rnd c) rs) cs s) = moves s" for rs cs s
    by (induction cs arbitrary: s) (simp_all add: inner)
  show ?thesis by (simp add: spawnNewTiles_def Let_def outer)
qed

lemma processMatches_settles: "settles (processMatches fuel rnd closes st) (moves st)"
proof (induction fuel arbitrary: st)
  case 0
  then show ?case by simp
next
  case (Suc fuel)
  show ?case
  proof (cases "matches (findAllMatches (data st)) = []")
    case True
    then show ?thesis by simp
  next
    case False
    obtain mt st1 where r: "removeMatches (uniqueMatches (data st)) st = Some (mt, st1)"
      and m1: "moves st1 = moves st"
      using removeMatches_total[of "uniqueMatches (data st)" st] uniqueMatches_rows[of _ "data st"]
      by blast
    have rest: "settles (processMatches fuel rnd closes (spawnNewTiles rnd (applyGravity st3))) (moves st)"
      if "moves st3 = moves st" for st3
      using Suc.IH[of "spawnNewTiles rnd (applyGravity st3)"] that
      by (simp add: spawnNewTiles_moves applyGravity_moves)
    have "settles (andThen (Some (revealMemories closes mt st1))
            (\<lambda>st3. processMatches fuel rnd closes (spawnNewTiles rnd (applyGravity st3)))) (moves st)"
      by (rule andThen_settles) (simp_all add: revealMemories_moves m1 rest)
    then show ?thesis using False by (simp add: r specialsToCreate_empty)
  qed
qed

lemma checkWinLose_settles: "settles (checkWinLose fuel rnd st) (moves st)"
proof -
  obtain b st' where h: "hasPossibleMoves st = Some (b, st')" and m: "moves st' = moves st"
    using hasPossibleMoves_total[of st] by blast
  have "settles (shuffle_fuel fuel rnd st') (moves st)"
    using shuffle_fuel_total[of fuel rnd st'] m by (simp add: settles_def)
  then show ?thesis by (simp add: checkWinLose_def h m)
qed

lemma finishSwap_settles: "moves st = k \<Longrightarrow> settles (finishSwap fuel rnd st) k"
  unfolding finishSwap_def
  by (rule andThen_settles) (use checkWinLose_settles[of fuel rnd st] in simp_all)

lemma processSpecialCombination_settles:
  assumes "row p < length (data st)" "row q < length (data st)"
  shows "settles (processSpecialCombination fuel rnd closes p q comb st) (moves st - 1)"
proof -
  obtain st1 where s: "swapTiles p q st = Some st1" and m1: "moves st1 = moves st"
    using swapTiles_total[OF assms] by blast
  define st2 where "st2 = st1\<lparr>moves := moves st1 - 1\<rparr>"
  have m2: "moves st2 = moves st - 1" by (simp add: st2_def m1)
  obtain mt st3 where r: "removeMatches (uniquePositions (data st2) p q comb) st2 = Some (mt, st3)"
    and m3: "moves st3 = moves st2"
    using removeMatches_total[of "uniquePositions (data st2) p q comb" st2]
      uniquePositions_rows[of _ "data st2" p q comb]
    by blast
  have "settles (andThen (Some (revealMemories closes mt st3))
          (\<lambda>st4. processMatches fuel rnd closes (spawnNewTiles rnd (applyGravity st4)))) (moves st - 1)"
  proof (rule andThen_settles)
    show "settles (Some (revealMemories closes mt st3)) (moves st - 1)"
      by (simp add: revealMemories_moves m3 m2)
  next
    fix st4 :: state
    assume "moves st4 = moves st - 1"
    then show "settles (processMatches fuel rnd closes (spawnNewTiles rnd (applyGravity st4))) (moves st - 1)"
      using processMatches_settles[of fuel rnd closes "spawnNewTiles rnd (applyGravity st4)"]
      by (simp add: spawnNewTiles_moves applyGravity_moves)
  qed
  then show ?thesis
    unfolding processSpecialCombination_def s option.case Let_def st2_def[symmetric] r prod.case .
qed

lemma attemptSwap_invalid:
  assumes "inBounds (data st) p" "inBounds (data st) q"
    and "isSpecialCombination (data st) p q = None"
    and "wouldMatch (data st) p q = Some (False, g)"
  shows "attemptSwap fuel rnd closes p q st = Some (Returned (st\<lparr>isProcessing := False\<rparr>))"
proof -
  have "g = data st" using wouldMatch_restores[OF assms(1,2)] assms(4) by auto
  then show ?thesis using assms(3,4) by (simp add: attemptSwap_def Let_def)
qed

lemma attemptSwap_combination:
  assumes "inBounds (data st) p" "inBounds (data st) q"
    and "isSpecialCombination (data st) p q = Some comb"
  shows "settles (attemptSwap fuel rnd closes p q st) (moves st - 1)"
proof -
  have "settles (andThen (processSpecialCombination fuel rnd closes p q comb (st\<lparr>isProcessing := True\<rparr>))
          (finishSwap fuel rnd)) (moves st - 1)"
    using processSpecialCombination_settles[of p "st\<lparr>isProcessing := True\<rparr>" q fuel rnd closes comb]
      assms(1,2)
    by (intro andThen_settles finishSwap_settles) (simp_all add: inBounds_def)
  then show ?thesis using assms(3) by (simp add: attemptSwap_def Let_def)
qed

lemma attemptSwap_valid:
  assumes "inBounds (data st) p" "inBounds (data st) q"
    and "isSpecialCombination (data st) p q = None"
    and "wouldMatch (data st) p q = Some (True, g)"
  shows "settles (attemptSwap fuel rnd closes p q st) (moves st - 1)"
proof -
  have g: "g = data st" using wouldMatch_restores[OF assms(1,2)] assms(4) by auto
  obtain st1 where s: "swapTiles p q (st\<lparr>isProcessing := True\<rparr>) = Some st1"
    and m1: "moves st1 = moves st"
    using swapTiles_total[of p "st\<lparr>isProcessing := True\<rparr>" q] assms(1,2)
    by (auto simp: inBounds_def)
  have "settles (andThen (processMatches fuel rnd closes (st1\<lparr>moves := moves st1 - 1\<rparr>))
          (finishSwap fuel rnd)) (moves st - 1)"
    using processMatches_settles[of fuel rnd closes "st1\<lparr>moves := moves st1 - 1\<rparr>"]
    by (intro andThen_settles finishSwap_settles) (simp_all add: m1)
  then show ?thesis using assms(3,4) s by (simp add: attemptSwap_def Let_def g)
qed

text \<open>A turn that has returned, or is suspended, is found the same when it is looked at
  later.\<close>

primrec isRunning :: "run \<Rightarrow> bool" where
  "isRunning (Returned st) = False"
| "isRunning (Waiting st) = False"
| "isRunning (Running st) = True"

lemma andThen_later:
  assumes "andThen r f = Some x" and "\<not> isRunning x"
    and "\<And>y. r = Some y \<Longrightarrow> \<not> isRunning y \<Longrightarrow> r' = Some y"
    and "\<And>s y. f s = Some y \<Longrightarrow> \<not> isRunning y \<Longrightarrow> f' s = Some y"
  shows "andThen r' f' = Some x"
proof (cases r)
  case None
  then show ?thesis using assms(1) by (simp add: andThen_def)
next
  case (Some y)
  show ?thesis
  proof (cases y)
    case (Returned s)
    then have "r' = Some (Returned s)" and "f' s = Some x"
      using assms Some by (simp_all add: andThen_def)
    then show ?thesis by (simp add: andThen_def)
  next
    case (Waiting s)
    then have "r' = Some (Waiting s)" and "x = Waiting s"
      using assms Some by (simp_all add: andThen_def)
    then show ?thesis by (simp add: andThen_def)
  next
    case (Running s)
    then show ?thesis using assms(1,2) Some by (auto simp: andThen_def)
  qed
qed

lemma processMatches_later:
  "processMatches fuel rnd closes st = Some x \<Longrightarrow> \<not> isRunning x \<Longrightarrow>
   processMatches (Suc fuel) rnd closes st = Some x"
proof (induction fuel arbitrary: st x)
  case 0
  then show ?case by auto
next
  case (Suc fuel)
  show ?case
  proof (cases "matches (findAllMatches (data st)) = []")
    case True
    then show ?thesis using Suc.prems by simp
  next
    case False
    obtain mt st1 where r: "removeMatches (uniqueMatches (data st)) st = Some (mt, st1)"
      using removeMatches_total[of "uniqueMatches (data st)" st] uniqueMatches_rows[of _ "data st"]
      by blast
    have "andThen (Some (revealMemories closes mt st1))
            (\<lambda>st3. processMatches fuel rnd closes (spawnNewTiles rnd (applyGravity st3))) = Some x"
      using Suc.prems(1) False by (simp add: r specialsToCreate_empty)
    then have "andThen (Some (revealMemories closes mt st1))
            (\<lambda>st3. processMatches (Suc fuel) rnd closes (spawnNewTiles rnd (applyGravity st3))) = Some x"
      using Suc.prems(2) by (rule andThen_later) (assumption | erule (1) Suc.IH)+
    then show ?thesis
      using False by (subst processMatches.simps) (simp add: r specialsToCreate_empty)
  qed
qed

lemma shuffle_fuel_later:
  "shuffle_fuel fuel rnd st = Some x \<Longrightarrow> \<not> isRunning x \<Longrightarrow>
   shuffle_fuel (Suc fuel) rnd st = Some x"
proof (induction fuel arbitrary: st x)
  case 0
  then show ?case by auto
next
  case (Suc fuel)
  obtain tiles st1 where fy: "fisherYates rnd (collectTiles (data st)) st = (tiles, st1)"
    by (cases "fisherYates rnd (collectTiles (data st)) st")
  define st2 where "st2 = st1\<lparr>data := reassign tiles (data st1)\<rparr>"
  note f = shuffle_fuel_step[OF fy st2_def]
  obtain b st3 where h: "hasPossibleMoves st2 = Some (b, st3)"
    using hasPossibleMoves_total[of st2] by blast
  show ?case
  proof (cases "matches (findAllMatches (data st2)) \<noteq> []")
    case True
    then have "shuffle_fuel fuel rnd st2 = Some x" using Suc.prems(1) unfolding f by simp
    then have "shuffle_fuel (Suc fuel) rnd st2 = Some x" using Suc.prems(2) by (rule Suc.IH)
    then show ?thesis using True unfolding f[of "Suc fuel"] by simp
  next
    case False
    show ?thesis
    proof (cases b)
      case True
      then show ?thesis using Suc.prems(1) False h unfolding f f[of "Suc fuel"] by simp
    next
      case nb: False
      then have "shuffle_fuel fuel rnd st3 = Some x"
        using Suc.prems(1) False h unfolding f by simp
      then have "shuffle_fuel (Suc fuel) rnd st3 = Some x" using Suc.prems(2) by (rule Suc.IH)
      then show ?thesis using False h nb unfolding f[of "Suc fuel"] by simp
    qed
  qed
qed

lemma checkWinLose_later:
  "checkWinLose fuel rnd st = Some x \<Longrightarrow> \<not> isRunning x \<Longrightarrow>
   checkWinLose (Suc fuel) rnd st = Some x"
  unfolding checkWinLose_def
  by (auto split: if_splits option.splits intro: shuffle_fuel_later simp del: shuffle_fuel.simps)

lemma finishSwap_later:
  "finishSwap fuel rnd st = Some x \<Longrightarrow> \<not> isRunning x \<Longrightarrow>
   finishSwap (Suc fuel) rnd st = Some x"
  unfolding finishSwap_def
  by (erule andThen_later) (assumption | erule (1) checkWinLose_later | simp)+

lemma processSpecialCombination_later:
  assumes "processSpecialCombination fuel rnd closes p q comb st = Some x" and "\<not> isRunning x"
  shows "processSpecialCombination (Suc fuel) rnd closes p q comb st = Some x"
proof -
  obtain st1 where s: "swapTiles p q st = Some st1"
    using assms(1) by (auto simp: processSpecialCombination_def split: option.splits)
  define st2 where "st2 = st1\<lparr>moves := moves st1 - 1\<rparr>"
  obtain mt st3 where r: "removeMatches (uniquePositions (data st2) p q comb) st2 = Some (mt, st3)"
    using removeMatches_total[of "uniquePositions (data st2) p q comb" st2]
      uniquePositions_rows[of _ "data st2" p q comb]
    by blast
  have e: "processSpecialCombination k rnd closes p q comb st =
           andThen (Some (revealMemories closes mt st3))
             (\<lambda>st4. processMatches k rnd closes (spawnNewTiles rnd (applyGravity st4)))" for k
    unfolding processSpecialCombination_def s option.case Let_def st2_def[symmetric] r prod.case ..
  show ?thesis
    using assms unfolding e
    by (rule andThen_later) (assumption | erule (1) processMatches_later)+
qed

lemma attemptSwap_later:
  assumes "attemptSwap fuel rnd closes p q st = Some x" and "\<not> isRunning x"
  shows "attemptSwap (Suc fuel) rnd closes p q st = Some x"
proof (cases "isSpecialCombination (data st) p q")
  case (Some comb)
  have "andThen (processSpecialCombination fuel rnd closes p q comb (st\<lparr>isProcessing := True\<rparr>))
          (finishSwap fuel rnd) = Some x"
    using assms(1) Some by (simp add: attemptSwap_def Let_def)
  then have "andThen (processSpecialCombination (Suc fuel) rnd closes p q comb (st\<lparr>isProcessing := True\<rparr>))
          (finishSwap (Suc fuel) rnd) = Some x"
    using assms(2)
    by (rule andThen_later)
       (assumption | erule (1) processSpecialCombination_later | erule (1) finishSwap_later)+
  then show ?thesis using Some by (simp add: attemptSwap_def Let_def)
next
  case None
  obtain would g where w: "wouldMatch (data st) p q = Some (would, g)"
    using assms(1) None by (auto simp: attemptSwap_def Let_def split: option.splits)
  show ?thesis
  proof (cases would)
    case False
    then show ?thesis using assms(1) None w by (simp add: attemptSwap_def Let_def)
  next
    case True
    obtain st1 where s: "swapTiles p q (st\<lparr>isProcessing := True, data := g\<rparr>) = Some st1"
      using assms(1) None w True by (auto simp: attemptSwap_def Let_def split: option.splits)
    have "andThen (processMatches fuel rnd closes (st1\<lparr>moves := moves st1 - 1\<rparr>))
            (finishSwap fuel rnd) = Some x"
      using assms(1) None w True s by (simp add: attemptSwap_def Let_def)
    then have "andThen (processMatches (Suc fuel) rnd closes (st1\<lparr>moves := moves st1 - 1\<rparr>))
            (finishSwap (Suc fuel) rnd) = Some x"
      using assms(2)
      by (rule andThen_later)
         (assumption | erule (1) processMatches_later | erule (1) finishSwap_later)+
    then show ?thesis using None w True s
      by (simp add: attemptSwap_def Let_def del: processMatches.simps)
  qed
qed

subsection \<open>The two kinds of swap request\<close>

text \<open>
  The two kinds of swap request, as \<^verbatim>\<open>attemptSwap\<close> tells them apart: \<open>invalidSwap\<close> when the
  two tiles are not both special and \<^verbatim>\<open>wouldMatch\<close> answers false, \<open>mutatingSwap\<close> when they
  are both special or \<^verbatim>\<open>wouldMatch\<close> answers true.
\<close>

definition invalidSwap :: "grid \<Rightarrow> pos \<Rightarrow> pos \<Rightarrow> bool" where
  "invalidSwap grid p q =
     (isSpecialCombination grid p q = None \<and> map_option fst (wouldMatch grid p q) = Some False)"

definition mutatingSwap :: "grid \<Rightarrow> pos \<Rightarrow> pos \<Rightarrow> bool" where
  "mutatingSwap grid p q =
     (isSpecialCombination grid p q \<noteq> None \<or> map_option fst (wouldMatch grid p q) = Some True)"

text \<open>A turn on the board \<open>boardS\<close>: the swap completes the first row, the row is removed,
  and three tiles are spawned from six draws.\<close>

definition drawsA :: "real list" where
  "drawsA = [7/10, 5/10, 9/10, 5/10, 7/10, 5/10]"

definition boardSw :: grid where
  "boardSw =
    [map plain [Heart, Heart, Heart],
     map plain [Diamond, Rose, Diamond],
     map plain [Rose, Diamond, Rose]]"

definition boardCl :: grid where
  "boardCl =
    [[Null, Null, Null],
     map plain [Diamond, Rose, Diamond],
     map plain [Rose, Diamond, Rose]]"

definition boardA :: grid where
  "boardA =
    [map plain [Star, Ring, Star],
     map plain [Diamond, Rose, Diamond],
     map plain [Rose, Diamond, Rose]]"

definition stateA :: state where
  "stateA = state0\<lparr>data := boardS, isProcessing := True\<rparr>"

lemma boardS_combination:
  "isSpecialCombination boardS \<lparr>row = 0, col = 2\<rparr> \<lparr>row = 1, col = 2\<rparr> = None"
  by code_simp

lemma boardS_wouldMatch:
  "wouldMatch boardS \<lparr>row = 0, col = 2\<rparr> \<lparr>row = 1, col = 2\<rparr> = Some (True, boardS)"
  by code_simp

lemma boardS_swapTiles:
  "swapTiles \<lparr>row = 0, col = 2\<rparr> \<lparr>row = 1, col = 2\<rparr> stateA = Some (stateA\<lparr>data := boardSw\<rparr>)"
  by (simp add: swapTiles_def stateA_def state0_def boardS_def boardSw_def readCell_def
      setCell_def setCol_def gridAt_def plain_def)

lemma boardSw_matches: "matches (findAllMatches boardSw) \<noteq> []"
  by code_simp

lemma boardSw_uniqueMatches:
  "uniqueMatches boardSw =
     [\<lparr>row = 0, col = 0, animation = None\<rparr>, \<lparr>row = 0, col = 1, animation = None\<rparr>,
      \<lparr>row = 0, col = 2, animation = None\<rparr>]"
  by code_simp

lemma boardSw_removeMatches:
  "removeMatches (uniqueMatches boardSw) (stateA\<lparr>data := boardSw, moves := 29\<rparr>) =
   Some ([], stateA\<lparr>data := boardCl, moves := 29\<rparr>)"
  unfolding boardSw_uniqueMatches
  by (simp add: removeMatches_def readCell_def setCell_def setCol_def
      gridAt_def stateA_def state0_def boardSw_def boardCl_def plain_def)

lemma boardCl_gravity:
  "applyGravity (stateA\<lparr>data := boardCl, moves := 29\<rparr>) = stateA\<lparr>data := boardCl, moves := 29\<rparr>"
  by (simp add: applyGravity_def gravityStep_def gridAt_def stateA_def state0_def boardCl_def
      plain_def Let_def upt_rec numeral_2_eq_2 numeral_3_eq_3)

lemma boardCl_spawn:
  "spawnNewTiles (draws drawsA) (stateA\<lparr>data := boardCl, moves := 29\<rparr>) =
   stateA\<lparr>data := boardA, moves := 29, randomCalls := 6\<rparr>"
  by (simp add: spawnNewTiles_def spawnCell_def getRandomType_def mathRandom_def draws_def
      drawsA_def Abs_rand_inverse tileTypes_def getHelpfulTypeForPosition_def gridAt_def
      writeCell_def setCol_def stateA_def state0_def boardCl_def boardA_def plain_def Let_def
      upt_rec numeral_2_eq_2 numeral_3_eq_3)

lemma boardA_matches: "matches (findAllMatches boardA) = []"
  by code_simp

lemma boardA_findPossibleMatch:
  "findPossibleMatch boardA = Some (Some (\<lparr>row = 1, col = 1\<rparr>, \<lparr>row = 2, col = 1\<rparr>), boardA)"
  by code_simp

lemma processMatches_example:
  "processMatches 2 (draws drawsA) closes (stateA\<lparr>data := boardSw, moves := 29\<rparr>) =
   Some (Returned (stateA\<lparr>data := boardA, moves := 29, randomCalls := 6\<rparr>))"
  by (simp add: numeral_2_eq_2 boardSw_matches boardSw_removeMatches specialsToCreate_empty
      andThen_def boardCl_gravity boardCl_spawn boardA_matches)

lemma finishSwap_example:
  "finishSwap fuel rnd (stateA\<lparr>data := boardA, moves := 29, randomCalls := n\<rparr>) =
   Some (Returned (state0\<lparr>data := boardA, moves := 29, randomCalls := n\<rparr>))"
  by (simp add: finishSwap_def checkWinLose_def hasPossibleMoves_def boardA_findPossibleMatch
      andThen_def stateA_def state0_def)

lemma attemptSwap_example:
  "attemptSwap 2 (draws drawsA) closes \<lparr>row = 0, col = 2\<rparr> \<lparr>row = 1, col = 2\<rparr> (state0\<lparr>data := boardS\<rparr>) =
   Some (Returned (state0\<lparr>data := boardA, moves := 29, randomCalls := 6\<rparr>))"
proof -
  let ?p = "\<lparr>row = 0, col = 2\<rparr>" and ?q = "\<lparr>row = 1, col = 2\<rparr>"
  have st: "state0\<lparr>data := boardS\<rparr>\<lparr>isProcessing := True\<rparr> = stateA"
    by (simp add: stateA_def)
  have d: "data stateA = boardS" by (simp add: stateA_def)
  have s: "swapTiles ?p ?q (stateA\<lparr>data := boardS\<rparr>) = Some (stateA\<lparr>data := boardSw\<rparr>)"
    using boardS_swapTiles by (simp add: stateA_def state0_def)
  have m: "(stateA\<lparr>data := boardSw\<rparr>)\<lparr>moves := moves (stateA\<lparr>data := boardSw\<rparr>) - 1\<rparr> =
           stateA\<lparr>data := boardSw, moves := 29\<rparr>"
    by (simp add: stateA_def state0_def)
  show ?thesis
    unfolding attemptSwap_def Let_def st d boardS_combination boardS_wouldMatch
    by (simp only: option.case prod.case if_False if_True not_True_eq_False s m
        processMatches_example andThen_def run.case finishSwap_example)
qed

text \<open>A turn that swaps two striped tiles.\<close>

definition drawsP :: "real list" where
  "drawsP = [7/10, 5/10, 3/10, 5/10, 5/10, 5/10, 9/10, 5/10, 5/10, 5/10, 3/10, 5/10, 7/10, 5/10]"

definition boardP :: grid where
  "boardP =
    [[candy Heart StripedH, candy Diamond StripedV, plain Rose],
     map plain [Diamond, Rose, Diamond],
     map plain [Rose, Diamond, Rose]]"

definition boardPs :: grid where
  "boardPs =
    [[candy Diamond StripedV, candy Heart StripedH, plain Rose],
     map plain [Diamond, Rose, Diamond],
     map plain [Rose, Diamond, Rose]]"

definition boardPc :: grid where
  "boardPc =
    [[Null, Null, Null],
     [Null, Null, plain Diamond],
     [Null, Null, plain Rose]]"

definition comboP :: combination where
  "comboP = \<lparr>pos1 = \<lparr>row = 0, col = 0\<rparr>, pos2 = \<lparr>row = 0, col = 1\<rparr>, type1 = StripedH,
             type2 = StripedV, combinationType = StripedStriped\<rparr>"

definition stateP :: state where
  "stateP = state0\<lparr>data := boardP, isProcessing := True\<rparr>"

lemma boardP_combination:
  "isSpecialCombination boardP \<lparr>row = 0, col = 0\<rparr> \<lparr>row = 0, col = 1\<rparr> = Some comboP"
  by code_simp

lemma boardP_swapTiles:
  "swapTiles \<lparr>row = 0, col = 0\<rparr> \<lparr>row = 0, col = 1\<rparr> stateP = Some (stateP\<lparr>data := boardPs\<rparr>)"
  by (simp add: swapTiles_def stateP_def state0_def boardP_def boardPs_def readCell_def
      setCell_def setCol_def gridAt_def plain_def candy_def)

lemma boardPs_uniquePositions:
  "uniquePositions boardPs \<lparr>row = 0, col = 0\<rparr> \<lparr>row = 0, col = 1\<rparr> comboP =
     map (\<lambda>(r, c). \<lparr>row = r, col = c, animation = Some ClearingCross\<rparr>)
       [(0, 0), (0, 1), (0, 2), (1, 0), (2, 0), (1, 1), (2, 1)]"
  by code_simp

lemma boardPs_removeMatches:
  "removeMatches (uniquePositions boardPs \<lparr>row = 0, col = 0\<rparr> \<lparr>row = 0, col = 1\<rparr> comboP)
     (stateP\<lparr>data := boardPs, moves := 29\<rparr>) =
   Some ([], stateP\<lparr>data := boardPc, moves := 29\<rparr>)"
  unfolding boardPs_uniquePositions
  by (simp add: removeMatches_def readCell_def setCell_def setCol_def
      gridAt_def stateP_def state0_def boardPs_def boardPc_def plain_def candy_def)

lemma boardPc_gravity:
  "applyGravity (stateP\<lparr>data := boardPc, moves := 29\<rparr>) = stateP\<lparr>data := boardPc, moves := 29\<rparr>"
  by (simp add: applyGravity_def gravityStep_def gridAt_def stateP_def state0_def boardPc_def
      plain_def Let_def upt_rec numeral_2_eq_2 numeral_3_eq_3)

lemma boardPc_spawn:
  "spawnNewTiles (draws drawsP) (stateP\<lparr>data := boardPc, moves := 29\<rparr>) =
   stateP\<lparr>data := boardA, moves := 29, randomCalls := 14\<rparr>"
  by (simp add: spawnNewTiles_def spawnCell_def getRandomType_def mathRandom_def draws_def
      drawsP_def Abs_rand_inverse tileTypes_def getHelpfulTypeForPosition_def gridAt_def
      writeCell_def setCol_def stateP_def state0_def boardPc_def boardA_def plain_def Let_def
      upt_rec numeral_2_eq_2 numeral_3_eq_3)

lemma processSpecialCombination_example:
  "processSpecialCombination 1 (draws drawsP) closes \<lparr>row = 0, col = 0\<rparr> \<lparr>row = 0, col = 1\<rparr> comboP stateP =
   Some (Returned (stateP\<lparr>data := boardA, moves := 29, randomCalls := 14\<rparr>))"
proof -
  have m: "(stateP\<lparr>data := boardPs\<rparr>)\<lparr>moves := moves (stateP\<lparr>data := boardPs\<rparr>) - 1\<rparr> =
           stateP\<lparr>data := boardPs, moves := 29\<rparr>"
    by (simp add: stateP_def state0_def)
  have d: "data (stateP\<lparr>data := boardPs, moves := 29\<rparr>) = boardPs" by simp
  have pm: "processMatches 1 (draws drawsP) closes (stateP\<lparr>data := boardA, moves := 29, randomCalls := 14\<rparr>) =
            Some (Returned (stateP\<lparr>data := boardA, moves := 29, randomCalls := 14\<rparr>))"
    by (simp add: boardA_matches)
  show ?thesis
    unfolding processSpecialCombination_def boardP_swapTiles option.case Let_def m d
      boardPs_removeMatches prod.case
    by (simp only: revealMemories.simps andThen_def option.case run.case boardPc_gravity
        boardPc_spawn pm)
qed

lemma finishSwap_boardA:
  assumes "data st = boardA" "revealedCount st < totalMemories st" "0 < moves st"
  shows "finishSwap fuel rnd st = Some (Returned (st\<lparr>isProcessing := False\<rparr>))"
proof -
  have "hasPossibleMoves st = Some (True, st)"
    using assms(1) by (simp add: hasPossibleMoves_def boardA_findPossibleMatch)
  then show ?thesis
    using assms(2,3) by (simp add: finishSwap_def checkWinLose_def andThen_def)
qed

lemma attemptSwap_special_example:
  "attemptSwap 1 (draws drawsP) closes \<lparr>row = 0, col = 0\<rparr> \<lparr>row = 0, col = 1\<rparr> (state0\<lparr>data := boardP\<rparr>) =
   Some (Returned (state0\<lparr>data := boardA, moves := 29, randomCalls := 14\<rparr>))"
proof -
  let ?end = "stateP\<lparr>data := boardA, moves := 29, randomCalls := 14\<rparr>"
  have st: "state0\<lparr>data := boardP\<rparr>\<lparr>isProcessing := True\<rparr> = stateP"
    by (simp add: stateP_def)
  have d: "data stateP = boardP" by (simp add: stateP_def)
  have f: "finishSwap 1 (draws drawsP) ?end = Some (Returned (?end\<lparr>isProcessing := False\<rparr>))"
    by (rule finishSwap_boardA) (simp_all add: stateP_def state0_def)
  have e: "?end\<lparr>isProcessing := False\<rparr> = state0\<lparr>data := boardA, moves := 29, randomCalls := 14\<rparr>"
    by (simp add: stateP_def state0_def)
  show ?thesis
    unfolding attemptSwap_def Let_def st d boardP_combination option.case
      processSpecialCombination_example
    by (simp only: andThen_def option.case run.case f e)
qed

text \<open>A turn that removes a memory tile when every memory has been revealed.\<close>

definition boardW :: grid where
  "boardW =
    [[Tile \<lparr>type = Some Heart, special = None, isMemory = True, memoryId = MemId 0\<rparr>,
      plain Heart, plain Diamond],
     map plain [Diamond, Rose, Heart],
     map plain [Rose, Diamond, Rose]]"

definition boardWs :: grid where
  "boardWs =
    [[Tile \<lparr>type = Some Heart, special = None, isMemory = True, memoryId = MemId 0\<rparr>,
      plain Heart, plain Heart],
     map plain [Diamond, Rose, Diamond],
     map plain [Rose, Diamond, Rose]]"

definition stateW :: state where
  "stateW = state0\<lparr>data := boardW, isProcessing := True, revealedCount := 1\<rparr>"

lemma boardW_combination:
  "isSpecialCombination boardW \<lparr>row = 0, col = 2\<rparr> \<lparr>row = 1, col = 2\<rparr> = None"
  by code_simp

lemma boardW_wouldMatch:
  "wouldMatch boardW \<lparr>row = 0, col = 2\<rparr> \<lparr>row = 1, col = 2\<rparr> = Some (True, boardW)"
  by code_simp

lemma boardW_swapTiles:
  "swapTiles \<lparr>row = 0, col = 2\<rparr> \<lparr>row = 1, col = 2\<rparr> stateW = Some (stateW\<lparr>data := boardWs\<rparr>)"
  by (simp add: swapTiles_def stateW_def state0_def boardW_def boardWs_def readCell_def
      setCell_def setCol_def gridAt_def plain_def)

lemma boardWs_matches: "matches (findAllMatches boardWs) \<noteq> []"
  by code_simp

lemma boardWs_uniqueMatches:
  "uniqueMatches boardWs =
     [\<lparr>row = 0, col = 0, animation = None\<rparr>, \<lparr>row = 0, col = 1, animation = None\<rparr>,
      \<lparr>row = 0, col = 2, animation = None\<rparr>]"
  by code_simp

lemma boardWs_removeMatches:
  "removeMatches (uniqueMatches boardWs) (stateW\<lparr>data := boardWs, moves := 29\<rparr>) =
   Some ([\<lparr>row = 0, col = 0, tileMemoryId = MemId 0\<rparr>], stateW\<lparr>data := boardCl, moves := 29\<rparr>)"
  unfolding boardWs_uniqueMatches
  by (simp add: removeMatches_def readCell_def setCell_def setCol_def
      gridAt_def stateW_def state0_def boardWs_def boardCl_def plain_def)

lemma processMatches_waiting_example:
  "processMatches 1 rnd closes (stateW\<lparr>data := boardWs, moves := 29\<rparr>) =
   Some (Waiting (stateW\<lparr>data := boardCl, moves := 29, isPaused := True\<rparr>))"
proof -
  have r: "revealMemories closes [\<lparr>row = 0, col = 0, tileMemoryId = MemId 0\<rparr>]
             (stateW\<lparr>data := boardCl, moves := 29\<rparr>) =
           Waiting (stateW\<lparr>data := boardCl, moves := 29, isPaused := True\<rparr>)"
    by (simp add: revealMemory_def stateW_def state0_def)
  show ?thesis
    by (simp add: boardWs_matches boardWs_removeMatches specialsToCreate_empty r andThen_def
        del: revealMemories.simps)
qed

lemma attemptSwap_waiting_example:
  "attemptSwap 1 rnd closes \<lparr>row = 0, col = 2\<rparr> \<lparr>row = 1, col = 2\<rparr>
     (state0\<lparr>data := boardW, revealedCount := 1\<rparr>) =
   Some (Waiting (state0\<lparr>data := boardCl, moves := 29, isPaused := True, isProcessing := True,
                         revealedCount := 1\<rparr>))"
proof -
  let ?p = "\<lparr>row = 0, col = 2\<rparr>" and ?q = "\<lparr>row = 1, col = 2\<rparr>"
  have st: "state0\<lparr>data := boardW, revealedCount := 1\<rparr>\<lparr>isProcessing := True\<rparr> = stateW"
    by (simp add: stateW_def)
  have d: "data stateW = boardW" by (simp add: stateW_def)
  have s: "swapTiles ?p ?q (stateW\<lparr>data := boardW\<rparr>) = Some (stateW\<lparr>data := boardWs\<rparr>)"
    using boardW_swapTiles by (simp add: stateW_def state0_def)
  have m: "(stateW\<lparr>data := boardWs\<rparr>)\<lparr>moves := moves (stateW\<lparr>data := boardWs\<rparr>) - 1\<rparr> =
           stateW\<lparr>data := boardWs, moves := 29\<rparr>"
    by (simp add: stateW_def state0_def)
  have e: "stateW\<lparr>data := boardCl, moves := 29, isPaused := True\<rparr> =
           state0\<lparr>data := boardCl, moves := 29, isPaused := True, isProcessing := True,
                  revealedCount := 1\<rparr>"
    by (simp add: stateW_def state0_def)
  show ?thesis
    unfolding attemptSwap_def Let_def st d boardW_combination boardW_wouldMatch
    by (simp only: option.case prod.case if_False if_True not_True_eq_False s m
        processMatches_waiting_example andThen_def run.case e)
qed

lemma board6_invalidSwap: "invalidSwap board6 \<lparr>row = 0, col = 0\<rparr> \<lparr>row = 0, col = 1\<rparr>"
  by code_simp

lemma boardS_mutatingSwap: "mutatingSwap boardS \<lparr>row = 0, col = 2\<rparr> \<lparr>row = 1, col = 2\<rparr>"
  by code_simp

lemma boardP_mutatingSwap: "mutatingSwap boardP \<lparr>row = 0, col = 0\<rparr> \<lparr>row = 0, col = 1\<rparr>"
  by code_simp

lemma boardW_mutatingSwap: "mutatingSwap boardW \<lparr>row = 0, col = 2\<rparr> \<lparr>row = 1, col = 2\<rparr>"
  by code_simp

text \<open>The same swap when one memory is left to reveal: the overlay is opened, and the
  player closes it or leaves it open.\<close>

lemma boardCl_gravity_any:
  "data st = boardCl \<Longrightarrow> applyGravity st = st"
  by (simp add: applyGravity_def gravityStep_def gridAt_def boardCl_def
      plain_def Let_def upt_rec numeral_2_eq_2 numeral_3_eq_3)

lemma boardCl_spawn_any:
  "data st = boardCl \<Longrightarrow> randomCalls st = 0 \<Longrightarrow>
   spawnNewTiles (draws drawsA) st = st\<lparr>data := boardA, randomCalls := 6\<rparr>"
  by (simp add: spawnNewTiles_def spawnCell_def getRandomType_def mathRandom_def draws_def
      drawsA_def Abs_rand_inverse tileTypes_def getHelpfulTypeForPosition_def gridAt_def
      writeCell_def setCol_def boardCl_def boardA_def plain_def Let_def
      upt_rec numeral_2_eq_2 numeral_3_eq_3)

definition stateV :: state where
  "stateV = state0\<lparr>data := boardW, isProcessing := True\<rparr>"

lemma boardW_swapTiles_V:
  "swapTiles \<lparr>row = 0, col = 2\<rparr> \<lparr>row = 1, col = 2\<rparr> stateV = Some (stateV\<lparr>data := boardWs\<rparr>)"
  by (simp add: swapTiles_def stateV_def state0_def boardW_def boardWs_def readCell_def
      setCell_def setCol_def gridAt_def plain_def)

lemma boardWs_removeMatches_V:
  "removeMatches (uniqueMatches boardWs) (stateV\<lparr>data := boardWs, moves := 29\<rparr>) =
   Some ([\<lparr>row = 0, col = 0, tileMemoryId = MemId 0\<rparr>], stateV\<lparr>data := boardCl, moves := 29\<rparr>)"
  unfolding boardWs_uniqueMatches
  by (simp add: removeMatches_def readCell_def setCell_def setCol_def
      gridAt_def stateV_def state0_def boardWs_def boardCl_def plain_def)

lemma revealMemories_closed_example:
  "revealMemories (\<lambda>n. True) [\<lparr>row = 0, col = 0, tileMemoryId = MemId 0\<rparr>]
     (stateV\<lparr>data := boardCl, moves := 29\<rparr>) =
   Returned (stateV\<lparr>data := boardCl, moves := 29, revealedCount := 1\<rparr>)"
  by (simp add: revealMemory_def stateV_def state0_def)

lemma revealMemories_open_example:
  "revealMemories (\<lambda>n. False) [\<lparr>row = 0, col = 0, tileMemoryId = MemId 0\<rparr>]
     (stateV\<lparr>data := boardCl, moves := 29\<rparr>) =
   Waiting (stateV\<lparr>data := boardCl, moves := 29, isPaused := True, revealedCount := 1\<rparr>)"
  by (simp add: revealMemory_def stateV_def state0_def)

lemma processMatches_reveal_example:
  "processMatches 2 (draws drawsA) (\<lambda>n. True) (stateV\<lparr>data := boardWs, moves := 29\<rparr>) =
   Some (Returned (stateV\<lparr>data := boardA, moves := 29, revealedCount := 1, randomCalls := 6\<rparr>))"
proof -
  have g: "applyGravity (stateV\<lparr>data := boardCl, moves := 29, revealedCount := Suc 0\<rparr>) =
           stateV\<lparr>data := boardCl, moves := 29, revealedCount := Suc 0\<rparr>"
    by (rule boardCl_gravity_any) simp
  have sp: "spawnNewTiles (draws drawsA) (stateV\<lparr>data := boardCl, moves := 29, revealedCount := Suc 0\<rparr>) =
            stateV\<lparr>data := boardA, moves := 29, revealedCount := Suc 0, randomCalls := 6\<rparr>"
    by (subst boardCl_spawn_any) (simp_all add: stateV_def state0_def)
  show ?thesis
    by (simp add: numeral_2_eq_2 boardWs_matches boardWs_removeMatches_V specialsToCreate_empty
        revealMemories_closed_example andThen_def g sp boardA_matches
        del: revealMemories.simps)
qed

lemma processMatches_open_example:
  "processMatches 2 rnd (\<lambda>n. False) (stateV\<lparr>data := boardWs, moves := 29\<rparr>) =
   Some (Waiting (stateV\<lparr>data := boardCl, moves := 29, isPaused := True, revealedCount := 1\<rparr>))"
  by (simp add: numeral_2_eq_2 boardWs_matches boardWs_removeMatches_V specialsToCreate_empty
      revealMemories_open_example andThen_def del: revealMemories.simps)

lemma attemptSwap_reveal_example:
  "attemptSwap 2 (draws drawsA) (\<lambda>n. True) \<lparr>row = 0, col = 2\<rparr> \<lparr>row = 1, col = 2\<rparr>
     (state0\<lparr>data := boardW\<rparr>) =
   Some (Returned (state0\<lparr>data := boardA, moves := 29, isPlaying := False, revealedCount := 1,
                          randomCalls := 6\<rparr>))"
proof -
  let ?p = "\<lparr>row = 0, col = 2\<rparr>" and ?q = "\<lparr>row = 1, col = 2\<rparr>"
  let ?end = "stateV\<lparr>data := boardA, moves := 29, revealedCount := 1, randomCalls := 6\<rparr>"
  have st: "state0\<lparr>data := boardW\<rparr>\<lparr>isProcessing := True\<rparr> = stateV"
    by (simp add: stateV_def)
  have d: "data stateV = boardW" by (simp add: stateV_def)
  have s: "swapTiles ?p ?q (stateV\<lparr>data := boardW\<rparr>) = Some (stateV\<lparr>data := boardWs\<rparr>)"
    using boardW_swapTiles_V by (simp add: stateV_def state0_def)
  have m: "(stateV\<lparr>data := boardWs\<rparr>)\<lparr>moves := moves (stateV\<lparr>data := boardWs\<rparr>) - 1\<rparr> =
           stateV\<lparr>data := boardWs, moves := 29\<rparr>"
    by (simp add: stateV_def state0_def)
  have f: "finishSwap 2 (draws drawsA) ?end =
           Some (Returned (state0\<lparr>data := boardA, moves := 29, isPlaying := False,
                                  revealedCount := 1, randomCalls := 6\<rparr>))"
    by (simp add: finishSwap_def checkWinLose_def andThen_def stateV_def state0_def)
  show ?thesis
    unfolding attemptSwap_def Let_def st d boardW_combination boardW_wouldMatch
    by (simp only: option.case prod.case if_False if_True not_True_eq_False s m
        processMatches_reveal_example andThen_def run.case f)
qed

lemma attemptSwap_open_example:
  "attemptSwap 2 rnd (\<lambda>n. False) \<lparr>row = 0, col = 2\<rparr> \<lparr>row = 1, col = 2\<rparr>
     (state0\<lparr>data := boardW\<rparr>) =
   Some (Waiting (state0\<lparr>data := boardCl, moves := 29, isPaused := True, isProcessing := True,
                         revealedCount := 1\<rparr>))"
proof -
  let ?p = "\<lparr>row = 0, col = 2\<rparr>" and ?q = "\<lparr>row = 1, col = 2\<rparr>"
  have st: "state0\<lparr>data := boardW\<rparr>\<lparr>isProcessing := True\<rparr> = stateV"
    by (simp add: stateV_def)
  have d: "data stateV = boardW" by (simp add: stateV_def)
  have s: "swapTiles ?p ?q (stateV\<lparr>data := boardW\<rparr>) = Some (stateV\<lparr>data := boardWs\<rparr>)"
    using boardW_swapTiles_V by (simp add: stateV_def state0_def)
  have m: "(stateV\<lparr>data := boardWs\<rparr>)\<lparr>moves := moves (stateV\<lparr>data := boardWs\<rparr>) - 1\<rparr> =
           stateV\<lparr>data := boardWs, moves := 29\<rparr>"
    by (simp add: stateV_def state0_def)
  have e: "stateV\<lparr>data := boardCl, moves := 29, isPaused := True, revealedCount := 1\<rparr> =
           state0\<lparr>data := boardCl, moves := 29, isPaused := True, isProcessing := True,
                  revealedCount := 1\<rparr>"
    by (simp add: stateV_def state0_def)
  show ?thesis
    unfolding attemptSwap_def Let_def st d boardW_combination boardW_wouldMatch
    by (simp only: option.case prod.case if_False if_True not_True_eq_False s m
        processMatches_open_example andThen_def run.case e)
qed

text \<open>
  Claim C6. For two positions on the board: when the two tiles are not both special and
  \<^verbatim>\<open>wouldMatch\<close> is false, \<^verbatim>\<open>attemptSwap\<close> returns, the number of moves left is the same and
  the tile data of the board are unchanged; when the swap mutates the board (the two tiles
  are both special, or \<^verbatim>\<open>wouldMatch\<close> is true), \<^verbatim>\<open>attemptSwap\<close> does not throw and, whatever
  the random draws and whatever the player does with the overlays, whenever the turn is
  looked at (it has returned, it is suspended on \<^verbatim>\<open>waitForClose\<close>, or the cascade or the
  reshuffle is still running), the number of moves left is one less than before.
\<close>

theorem swap_move_accounting:
  assumes "inBounds (data st) p" and "inBounds (data st) q"
  shows "(invalidSwap (data st) p q \<longrightarrow>
            (\<exists>st'. attemptSwap fuel rnd closes p q st = Some (Returned st') \<and> moves st' = moves st \<and>
                   data st' = data st)) \<and>
         (mutatingSwap (data st) p q \<longrightarrow>
            (\<exists>x. attemptSwap fuel rnd closes p q st = Some x \<and> moves (stateOf x) = moves st - 1))"
proof (intro conjI impI)
  assume "invalidSwap (data st) p q"
  then obtain g where "isSpecialCombination (data st) p q = None"
    and "wouldMatch (data st) p q = Some (False, g)"
    by (auto simp: invalidSwap_def)
  then have "attemptSwap fuel rnd closes p q st = Some (Returned (st\<lparr>isProcessing := False\<rparr>))"
    using assms by (simp add: attemptSwap_invalid)
  then show "\<exists>st'. attemptSwap fuel rnd closes p q st = Some (Returned st') \<and> moves st' = moves st \<and>
                  data st' = data st"
    by simp
next
  assume mut: "mutatingSwap (data st) p q"
  have "settles (attemptSwap fuel rnd closes p q st) (moves st - 1)"
  proof (cases "isSpecialCombination (data st) p q")
    case None
    then obtain g where "wouldMatch (data st) p q = Some (True, g)"
      using mut by (auto simp: mutatingSwap_def)
    then show ?thesis by (rule attemptSwap_valid[OF assms None])
  next
    case (Some c)
    then show ?thesis by (rule attemptSwap_combination[OF assms])
  qed
  then show "\<exists>x. attemptSwap fuel rnd closes p q st = Some x \<and> moves (stateOf x) = moves st - 1"
    by (simp add: settles_def)
qed

theorem swap_move_accounting_witness:
  "invalidSwap board6 \<lparr>row = 0, col = 0\<rparr> \<lparr>row = 0, col = 1\<rparr> \<and>
   (\<exists>st'. attemptSwap 0 (draws drawsA) (\<lambda>n. True) \<lparr>row = 0, col = 0\<rparr> \<lparr>row = 0, col = 1\<rparr>
            (state0\<lparr>data := board6\<rparr>) = Some (Returned st') \<and>
          moves st' = 30 \<and> data st' = board6) \<and>
   mutatingSwap boardS \<lparr>row = 0, col = 2\<rparr> \<lparr>row = 1, col = 2\<rparr> \<and>
   attemptSwap 2 (draws drawsA) (\<lambda>n. True) \<lparr>row = 0, col = 2\<rparr> \<lparr>row = 1, col = 2\<rparr>
       (state0\<lparr>data := boardS\<rparr>) =
     Some (Returned (state0\<lparr>data := boardA, moves := 29, randomCalls := 6\<rparr>)) \<and>
   mutatingSwap boardP \<lparr>row = 0, col = 0\<rparr> \<lparr>row = 0, col = 1\<rparr> \<and>
   attemptSwap 1 (draws drawsP) (\<lambda>n. True) \<lparr>row = 0, col = 0\<rparr> \<lparr>row = 0, col = 1\<rparr>
       (state0\<lparr>data := boardP\<rparr>) =
     Some (Returned (state0\<lparr>data := boardA, moves := 29, randomCalls := 14\<rparr>)) \<and>
   mutatingSwap boardW \<lparr>row = 0, col = 2\<rparr> \<lparr>row = 1, col = 2\<rparr> \<and>
   attemptSwap 2 (draws drawsA) (\<lambda>n. True) \<lparr>row = 0, col = 2\<rparr> \<lparr>row = 1, col = 2\<rparr>
       (state0\<lparr>data := boardW\<rparr>) =
     Some (Returned (state0\<lparr>data := boardA, moves := 29, isPlaying := False, revealedCount := 1,
                            randomCalls := 6\<rparr>)) \<and>
   attemptSwap 2 (draws drawsA) (\<lambda>n. False) \<lparr>row = 0, col = 2\<rparr> \<lparr>row = 1, col = 2\<rparr>
       (state0\<lparr>data := boardW\<rparr>) =
     Some (Waiting (state0\<lparr>data := boardCl, moves := 29, isPaused := True, isProcessing := True,
                           revealedCount := 1\<rparr>)) \<and>
   attemptSwap 1 (draws drawsA) (\<lambda>n. True) \<lparr>row = 0, col = 2\<rparr> \<lparr>row = 1, col = 2\<rparr>
       (state0\<lparr>data := boardW, revealedCount := 1\<rparr>) =
     Some (Waiting (state0\<lparr>data := boardCl, moves := 29, isPaused := True, isProcessing := True,
                           revealedCount := 1\<rparr>)) \<and>
   moves (state0\<lparr>data := boardS\<rparr>) - 1 = 29"
proof -
  have b6: "inBounds board6 \<lparr>row = 0, col = 0\<rparr>" "inBounds board6 \<lparr>row = 0, col = 1\<rparr>"
    by (simp_all add: inBounds_def board6_def)
  have bS: "inBounds boardS \<lparr>row = 0, col = 2\<rparr>" "inBounds boardS \<lparr>row = 1, col = 2\<rparr>"
    by (simp_all add: inBounds_def boardS_def)
  have bP: "inBounds boardP \<lparr>row = 0, col = 0\<rparr>" "inBounds boardP \<lparr>row = 0, col = 1\<rparr>"
    by (simp_all add: inBounds_def boardP_def)
  have bW: "inBounds boardW \<lparr>row = 0, col = 2\<rparr>" "inBounds boardW \<lparr>row = 1, col = 2\<rparr>"
    by (simp_all add: inBounds_def boardW_def)
  show ?thesis
    using swap_move_accounting[of "state0\<lparr>data := board6\<rparr>" "\<lparr>row = 0, col = 0\<rparr>"
            "\<lparr>row = 0, col = 1\<rparr>" 0 "draws drawsA" "\<lambda>n. True"]
          swap_move_accounting[of "state0\<lparr>data := boardS\<rparr>" "\<lparr>row = 0, col = 2\<rparr>"
            "\<lparr>row = 1, col = 2\<rparr>" 2 "draws drawsA" "\<lambda>n. True"]
          swap_move_accounting[of "state0\<lparr>data := boardP\<rparr>" "\<lparr>row = 0, col = 0\<rparr>"
            "\<lparr>row = 0, col = 1\<rparr>" 1 "draws drawsP" "\<lambda>n. True"]
          swap_move_accounting[of "state0\<lparr>data := boardW\<rparr>"
            "\<lparr>row = 0, col = 2\<rparr>" "\<lparr>row = 1, col = 2\<rparr>" 2 "draws drawsA" "\<lambda>n. True"]
          swap_move_accounting[of "state0\<lparr>data := boardW\<rparr>"
            "\<lparr>row = 0, col = 2\<rparr>" "\<lparr>row = 1, col = 2\<rparr>" 2 "draws drawsA" "\<lambda>n. False"]
          swap_move_accounting[of "state0\<lparr>data := boardW, revealedCount := 1\<rparr>"
            "\<lparr>row = 0, col = 2\<rparr>" "\<lparr>row = 1, col = 2\<rparr>" 1 "draws drawsA" "\<lambda>n. True"]
          b6 bS bP bW board6_invalidSwap boardS_mutatingSwap boardP_mutatingSwap
          boardW_mutatingSwap attemptSwap_example[of "\<lambda>n. True"]
          attemptSwap_special_example[of "\<lambda>n. True"]
          attemptSwap_reveal_example attemptSwap_open_example[of "draws drawsA"]
          attemptSwap_waiting_example[of "draws drawsA" "\<lambda>n. True"]
    by (simp add: state0_def)
qed

end
